theory Spec2Isabelle
  imports Complex_Main "HOL-Library.Sublist"
begin

section \<open>Strings\<close>

text \<open>
  A Python \<open>str\<close> is a sequence of Unicode code points and \<open>len\<close> counts code points.
  A string is therefore a list of code points (natural numbers); \<open>lit\<close> turns an ASCII
  literal into such a list. Characters that cannot be written inside an ASCII literal
  (quote, backslash, accented letters) are given by their code point.
\<close>

type_synonym pystr = "nat list"

definition lit :: "string \<Rightarrow> pystr" where
  "lit cs = map of_char cs"

text \<open>
  The characters for which \<open>str.isspace\<close> holds; \<open>\s\<close> of \<open>re\<close> (on \<open>str\<close> patterns),
  \<open>str.strip()\<close> and \<open>str.rstrip()\<close> all use this class: TAB..CR, FS..US, space, NEL,
  NBSP, U+1680, U+2000..U+200A, U+2028, U+2029, U+202F, U+205F, U+3000.
\<close>

definition is_space :: "nat \<Rightarrow> bool" where
  "is_space c = ((9 \<le> c \<and> c \<le> 13) \<or> (28 \<le> c \<and> c \<le> 32) \<or> c = 133 \<or> c = 160
     \<or> c = 5760 \<or> (8192 \<le> c \<and> c \<le> 8202) \<or> c = 8232 \<or> c = 8233
     \<or> c = 8239 \<or> c = 8287 \<or> c = 12288)"

text \<open>\<open>s.rstrip(chars)\<close> and \<open>s.rstrip()\<close>, \<open>s.strip()\<close>.\<close>

definition rstrip_chars :: "(nat \<Rightarrow> bool) \<Rightarrow> pystr \<Rightarrow> pystr" where
  "rstrip_chars p s = rev (dropWhile p (rev s))"

definition rstrip :: "pystr \<Rightarrow> pystr" where
  "rstrip s = rstrip_chars is_space s"

definition strip :: "pystr \<Rightarrow> pystr" where
  "strip s = rstrip (dropWhile is_space s)"

text \<open>\<open>sub in s\<close> on strings: \<open>sub\<close> occurs in \<open>s\<close> as a contiguous block.\<close>

fun contains :: "pystr \<Rightarrow> pystr \<Rightarrow> bool" where
  "contains sub [] = (sub = [])"
| "contains sub (c # cs) = (prefix sub (c # cs) \<or> contains sub cs)"

section \<open>sanitize\_filename\<close>

text \<open>
  The class \<open>[<>:"/\\|?*\x00-\x1f]\<close>: the nine characters Windows refuses
  (code points 60, 62, 58, 34, 47, 92, 124, 63, 42) and the control characters 0..31.
\<close>

definition is_invalid :: "nat \<Rightarrow> bool" where
  "is_invalid c = (c \<in> set [60, 62, 58, 34, 47, 92, 124, 63, 42] \<or> c \<le> 31)"

text \<open>\<open>re.sub(r'\s+', ' ', s)\<close>: every maximal run of whitespace becomes one space (32).\<close>

function collapse_ws :: "pystr \<Rightarrow> pystr" where
  "collapse_ws [] = []"
| "collapse_ws (c # cs) =
     (if is_space c then 32 # collapse_ws (dropWhile is_space cs) else c # collapse_ws cs)"
  by pat_completeness auto
termination
  by (relation "measure length") (auto simp: length_dropWhile_le less_Suc_eq_le)

definition max_length :: nat where
  "max_length = 200"

definition sanitize_filename :: "pystr \<Rightarrow> pystr" where
  "sanitize_filename filename =
     (if filename = [] then lit ''video''
      else
        let f1 = map (\<lambda>c. if is_invalid c then 95 else c) filename;
            f2 = strip (collapse_ws f1);
            f3 = rstrip_chars (\<lambda>c. c \<in> set (lit ''. '')) f2;
            f4 = (if length f3 > max_length then rstrip (take max_length f3) else f3)
        in if f4 = [] then lit ''video'' else f4)"

section \<open>Dictionary fields\<close>

text \<open>
  The provider hands over dictionaries whose keys may be missing or may hold \<open>None\<close>.
  \<open>d.get(k)\<close> and \<open>d.get(k, default)\<close> tell the two apart, so a field is one of:
  key missing, key present with \<open>None\<close>, key present with a value.
\<close>

datatype 'a field = Absent | Null | Val 'a

section \<open>The output template of download\_video\<close>

text \<open>
  \<open>s.replace(old, new)\<close>: every occurrence of \<open>old\<close>, found from left to right without
  overlap, becomes \<open>new\<close>; an empty \<open>old\<close> matches before every character and at the end.
\<close>

function str_replace :: "pystr \<Rightarrow> pystr \<Rightarrow> pystr \<Rightarrow> pystr" where
  "str_replace old new s =
     (if old = [] then new @ concat (map (\<lambda>c. c # new) s)
      else if s = [] then []
      else if prefix old s then new @ str_replace old new (drop (length old) s)
      else hd s # str_replace old new (tl s))"
  by pat_completeness auto
termination
  by (relation "measure (\<lambda>(old, new, s). length s)") auto

declare str_replace.simps [simp del]

text \<open>
  \<open>os.path.join(a, b)\<close> as \<open>posixpath\<close> defines it for two components: an absolute
  \<open>b\<close> replaces \<open>a\<close>; otherwise the two are joined by one slash unless \<open>a\<close> is empty
  or already ends in one.
\<close>

definition path_join :: "pystr \<Rightarrow> pystr \<Rightarrow> pystr" where
  "path_join a b =
     (if prefix (lit ''/'') b then b
      else if a = [] \<or> suffix (lit ''/'') a then a @ b
      else a @ lit ''/'' @ b)"

text \<open>
  Lines 275 to 300 of \<open>download_video\<close>: the title is sanitized, cut to 150 characters,
  put into the template, and the path is tested with \<open>mp4\<close> and \<open>1080\<close> in place of
  the placeholders; a path of more than 250 characters makes a second, shorter title.
  The function returns the final title and the final \<open>outtmpl\<close>. \<open>download_dir\<close> is
  the module constant \<open>DOWNLOAD_DIR\<close>, which depends on where the program is installed.
\<close>

definition max_title_length :: nat where
  "max_title_length = 150"

definition outtmpl_of :: "pystr \<Rightarrow> pystr \<Rightarrow> bool \<Rightarrow> pystr" where
  "outtmpl_of download_dir title is_audio_only =
     (if is_audio_only then path_join download_dir (title @ lit ''.%(ext)s'')
      else path_join download_dir (title @ lit ''_%(height)sp.%(ext)s''))"

definition test_path_of :: "pystr \<Rightarrow> pystr" where
  "test_path_of outtmpl =
     str_replace (lit ''%(height)s'') (lit ''1080'')
       (str_replace (lit ''%(ext)s'') (lit ''mp4'') outtmpl)"

definition build_outtmpl :: "pystr \<Rightarrow> pystr field \<Rightarrow> bool \<Rightarrow> pystr \<times> pystr" where
  "build_outtmpl download_dir info_title is_audio_only =
     (let title0 = (case info_title of
                      Absent \<Rightarrow> sanitize_filename (lit ''video'')
                    | Null \<Rightarrow> lit ''video''
                    | Val t \<Rightarrow> sanitize_filename t);
          title1 = (if length title0 > max_title_length
                    then rstrip (take max_title_length title0) else title0);
          outtmpl1 = outtmpl_of download_dir title1 is_audio_only;
          test_path = test_path_of outtmpl1
      in if length test_path > 250 then
           let remaining = 250 - int (length download_dir) - 20;
               title2 = (if remaining > 0 then rstrip (take (nat remaining) title1)
                         else lit ''video'')
           in (title2, outtmpl_of download_dir title2 is_audio_only)
         else (title1, outtmpl1))"

section \<open>Errors and number formatting\<close>

text \<open>The exceptions the modelled code can raise.\<close>

datatype error = TypeError | KeyError | AttributeError

text \<open>\<open>str(n)\<close> of an integer, as used by the f-string \<open>f"{height}p"\<close>.\<close>

function str_nat :: "nat \<Rightarrow> pystr" where
  "str_nat n = (if n < 10 then [48 + n] else str_nat (n div 10) @ [48 + n mod 10])"
  by pat_completeness auto
termination
  by (relation "measure id") auto

declare str_nat.simps [simp del]

definition str_int :: "int \<Rightarrow> pystr" where
  "str_int i = (if i < 0 then lit ''-'' @ str_nat (nat (- i)) else str_nat (nat i))"

text \<open>
  Rounding a rational to the nearest integer, a tie going to the even neighbour.
\<close>

definition round_half_even :: "rat \<Rightarrow> int" where
  "round_half_even x =
     (let f = \<lfloor>x\<rfloor>; r = x - of_int f
      in if r < 1 / 2 then f else if r > 1 / 2 then f + 1 else if even f then f else f + 1)"

text \<open>
  Python's floats are IEEE 754 binary64 numbers. A float is modelled by the rational it
  denotes, and an operation on floats returns the float nearest to its exact result, a tie
  going to the even significand: \<open>fl\<close> of the exact result. A positive rational is scaled
  by powers of two into the range from \<open>2^52\<close> to \<open>2^53\<close>, rounded to an integer there,
  and scaled back; \<open>fl_small\<close> scales up and \<open>fl_large\<close> scales down. True division of
  two ints, division and multiplication of floats and \<open>float(n)\<close> are all correctly
  rounded, so each is \<open>fl\<close> of the exact result. The exponent range is not modelled (no
  overflow, no subnormal numbers), nor is the conversion of an int beyond \<open>2^53\<close> that
  meets a float operand: byte counts and their ratios are far from these.
\<close>

function fl_small :: "rat \<Rightarrow> rat" where
  "fl_small x =
     (if 0 < x \<and> x < 2 ^ 52 then fl_small (2 * x) / 2 else of_int (round_half_even x))"
  by pat_completeness auto
termination
proof (relation "measure (\<lambda>x. nat \<lceil>2 ^ 52 / x\<rceil>)")
  show "wf (measure (\<lambda>x::rat. nat \<lceil>2 ^ 52 / x\<rceil>))" by simp
next
  fix x :: rat
  assume a: "0 < x \<and> x < 2 ^ 52"
  define y where "y = 2 ^ 52 / x"
  have y1: "1 < y" using a by (simp add: y_def)
  then have c2: "2 \<le> \<lceil>y\<rceil>" by (simp add: le_ceiling_iff)
  have "y / 2 \<le> of_int \<lceil>y\<rceil> / 2" using le_of_int_ceiling [of y] by simp
  also have "\<dots> \<le> of_int (\<lceil>y\<rceil> - 1)" using c2 by simp
  finally have "\<lceil>y / 2\<rceil> \<le> \<lceil>y\<rceil> - 1" by (simp only: ceiling_le_iff)
  with c2 have lt: "nat \<lceil>y / 2\<rceil> < nat \<lceil>y\<rceil>" by linarith
  have eq: "2 ^ 52 / (2 * x) = y / 2" by (simp add: y_def)
  have "nat \<lceil>2 ^ 52 / (2 * x)\<rceil> < nat \<lceil>2 ^ 52 / x\<rceil>"
    unfolding eq unfolding y_def [symmetric] by (rule lt)
  then show "(2 * x, x) \<in> measure (\<lambda>x. nat \<lceil>2 ^ 52 / x\<rceil>)" by simp
qed

function fl_large :: "rat \<Rightarrow> rat" where
  "fl_large x =
     (if 2 ^ 53 \<le> x then fl_large (x / 2) * 2 else of_int (round_half_even x))"
  by pat_completeness auto
termination
proof (relation "measure (\<lambda>x. nat \<lfloor>x\<rfloor>)")
  show "wf (measure (\<lambda>x::rat. nat \<lfloor>x\<rfloor>))" by simp
next
  fix x :: rat
  assume a: "2 ^ 53 \<le> x"
  then have f1: "2 \<le> \<lfloor>x\<rfloor>" by (simp add: le_floor_iff)
  have "of_int \<lfloor>x / 2\<rfloor> \<le> x / 2" by (rule of_int_floor_le)
  also have "\<dots> < (of_int \<lfloor>x\<rfloor> + 1) / 2" using floor_correct [of x] by simp
  also have "\<dots> \<le> of_int \<lfloor>x\<rfloor>" using f1 by simp
  finally have "\<lfloor>x / 2\<rfloor> < \<lfloor>x\<rfloor>" by simp
  with f1 show "(x / 2, x) \<in> measure (\<lambda>x. nat \<lfloor>x\<rfloor>)" by simp
qed

declare fl_small.simps [simp del] fl_large.simps [simp del]

definition fl :: "rat \<Rightarrow> rat" where
  "fl x =
     (if x = 0 then 0
      else if x < 0 then - (if - x < 2 ^ 52 then fl_small (- x) else fl_large (- x))
      else if x < 2 ^ 52 then fl_small x else fl_large x)"

text \<open>The relative error of one rounding.\<close>

definition eps :: rat where
  "eps = 1 / 2 ^ 53"

text \<open>
  The format \<open>{x:.1f}\<close> prints the decimal with one digit nearest to the exact value of
  the float, a tie going to the even digit.
\<close>

definition fmt_1f :: "rat \<Rightarrow> pystr" where
  "fmt_1f x =
     (let t = round_half_even (\<bar>x\<bar> * 10)
      in (if x < 0 then lit ''-'' else []) @ str_nat (nat (t div 10)) @ lit ''.''
           @ str_nat (nat (t mod 10)))"

text \<open>
  \<open>format_size\<close>: divide by 1024 while the size is at least 1024 and a larger unit
  remains, then print one decimal and the unit. The size is \<open>float(bytes_size)\<close> and
  each division is a division of floats.
\<close>

definition units :: "pystr list" where
  "units = [lit ''B'', lit ''KB'', lit ''MB'', lit ''GB'']"

function size_loop :: "rat \<Rightarrow> nat \<Rightarrow> rat \<times> nat" where
  "size_loop sz unit_index =
     (if sz \<ge> 1024 \<and> unit_index < length units - 1
      then size_loop (fl (sz / 1024)) (unit_index + 1) else (sz, unit_index))"
  by pat_completeness auto
termination
  by (relation "measure (\<lambda>(sz, unit_index). length units - 1 - unit_index)") auto

declare size_loop.simps [simp del]

definition format_size :: "int \<Rightarrow> pystr" where
  "format_size bytes_size =
     (if bytes_size = 0 then lit ''0 B''
      else case size_loop (fl (of_int bytes_size)) 0 of
             (sz, unit_index) \<Rightarrow> fmt_1f sz @ lit '' '' @ units ! unit_index)"

section \<open>Ranking the formats in get\_video\_info\<close>

text \<open>
  One entry \<open>f\<close> of \<open>info['formats']\<close>, with the keys the loop reads. Heights and sizes
  are integers, bit rates are numbers (rationals).
\<close>

record descriptor =
  f_vcodec :: "pystr field"
  f_height :: "int field"
  f_format_id :: "pystr field"
  f_ext :: "pystr field"
  f_filesize :: "int field"
  f_filesize_approx :: "int field"
  f_vbr :: "rat field"
  f_tbr :: "rat field"
  f_acodec :: "pystr field"

text \<open>A value of the dictionary \<open>formats_by_height\<close>.\<close>

record entry =
  e_format_id :: "pystr option"
  e_quality :: pystr
  e_height :: int
  e_ext :: "pystr option"
  e_filesize :: "int option"
  e_filesize_str :: pystr
  e_has_audio :: bool
  e_vbr :: rat

text \<open>
  An element of \<open>final_formats\<close>: an entry without its \<open>vbr\<close> key, or the audio-only
  option. Only the audio-only option has the key \<open>audio_only\<close>; \<open>t_audio_only\<close> is
  \<open>False\<close> where the key is missing.
\<close>

record tier =
  t_format_id :: "pystr option"
  t_quality :: pystr
  t_height :: int
  t_ext :: "pystr option"
  t_filesize :: "int option"
  t_filesize_str :: pystr
  t_has_audio :: bool
  t_audio_only :: bool

text \<open>\<open>f.get(k)\<close>: \<open>None\<close> for a missing key.\<close>

definition get :: "'a field \<Rightarrow> 'a option" where
  "get x = (case x of Val v \<Rightarrow> Some v | _ \<Rightarrow> None)"

text \<open>
  \<open>f.get('filesize') or f.get('filesize_approx', 0)\<close>; the result is \<open>None\<close> when
  \<open>filesize\<close> is falsy and \<open>filesize_approx\<close> is present with \<open>None\<close>.
\<close>

definition filesize_of :: "descriptor \<Rightarrow> int option" where
  "filesize_of f =
     (case f_filesize f of
        Val n \<Rightarrow> if n \<noteq> 0 then Some n
                 else (case f_filesize_approx f of Absent \<Rightarrow> Some 0 | Null \<Rightarrow> None | Val a \<Rightarrow> Some a)
      | _ \<Rightarrow> (case f_filesize_approx f of Absent \<Rightarrow> Some 0 | Null \<Rightarrow> None | Val a \<Rightarrow> Some a))"

text \<open>\<open>f.get('vbr') or f.get('tbr') or 0\<close>.\<close>

definition vbr_of :: "descriptor \<Rightarrow> rat" where
  "vbr_of f =
     (case f_vbr f of
        Val v \<Rightarrow> if v \<noteq> 0 then v else (case f_tbr f of Val t \<Rightarrow> t | _ \<Rightarrow> 0)
      | _ \<Rightarrow> (case f_tbr f of Val t \<Rightarrow> t | _ \<Rightarrow> 0))"

text \<open>The dictionary built on lines 147 to 156 and again on lines 161 to 170.\<close>

definition entry_of :: "descriptor \<Rightarrow> int \<Rightarrow> entry" where
  "entry_of f height =
     \<lparr> e_format_id = get (f_format_id f),
       e_quality = str_int height @ lit ''p'',
       e_height = height,
       e_ext = (case f_ext f of Absent \<Rightarrow> Some (lit ''mp4'') | Null \<Rightarrow> None | Val x \<Rightarrow> Some x),
       e_filesize = filesize_of f,
       e_filesize_str =
         (case filesize_of f of
            Some n \<Rightarrow> if n \<noteq> 0 then format_size n else lit ''Tamanho desconhecido''
          | None \<Rightarrow> lit ''Tamanho desconhecido''),
       e_has_audio = (f_acodec f \<noteq> Val (lit ''none'')),
       e_vbr = vbr_of f \<rparr>"

text \<open>
  A Python \<open>dict\<close> keeps insertion order, and assigning to an existing key keeps the
  key's place: \<open>formats_by_height\<close> is an association list and \<open>dict_set\<close> is
  \<open>d[k] = v\<close>.
\<close>

fun dict_set :: "'k \<Rightarrow> 'v \<Rightarrow> ('k \<times> 'v) list \<Rightarrow> ('k \<times> 'v) list" where
  "dict_set k v [] = [(k, v)]"
| "dict_set k v ((k', v') # m) = (if k = k' then (k, v) # m else (k', v') # dict_set k v m)"

text \<open>
  One iteration of the loop over the formats (lines 131 to 170). In
  \<open>vbr > existing['vbr'] or (filesize > existing['filesize'] and vbr >= existing['vbr'])\<close>
  the sizes are compared only when the first test fails, and comparing with \<open>None\<close>
  raises \<open>TypeError\<close>.
\<close>

definition add_format :: "descriptor \<Rightarrow> (int \<times> entry) list \<Rightarrow> error + (int \<times> entry) list" where
  "add_format f formats_by_height =
     (if f_vcodec f = Val (lit ''none'') then Inr formats_by_height
      else case f_height f of
        Val height \<Rightarrow>
          if height = 0 then Inr formats_by_height
          else
            (case map_of formats_by_height height of
               None \<Rightarrow> Inr (dict_set height (entry_of f height) formats_by_height)
             | Some existing \<Rightarrow>
                 if vbr_of f > e_vbr existing
                 then Inr (dict_set height (entry_of f height) formats_by_height)
                 else (case (filesize_of f, e_filesize existing) of
                         (Some filesize, Some existing_filesize) \<Rightarrow>
                           if filesize > existing_filesize \<and> vbr_of f \<ge> e_vbr existing
                           then Inr (dict_set height (entry_of f height) formats_by_height)
                           else Inr formats_by_height
                       | _ \<Rightarrow> Inl TypeError))
      | _ \<Rightarrow> Inr formats_by_height)"

fun group_formats :: "descriptor list \<Rightarrow> (int \<times> entry) list \<Rightarrow> error + (int \<times> entry) list" where
  "group_formats [] formats_by_height = Inr formats_by_height"
| "group_formats (f # fs) formats_by_height =
     (case add_format f formats_by_height of
        Inl e \<Rightarrow> Inl e
      | Inr m \<Rightarrow> group_formats fs m)"

text \<open>
  \<open>formats.sort(key=lambda x: x['height'], reverse=True)\<close>: a stable sort in which
  equal keys keep their order, that is, the reverse of the stable ascending sort of the
  reversed list.
\<close>

definition sort_by_height_desc :: "entry list \<Rightarrow> entry list" where
  "sort_by_height_desc formats = rev (sort_key e_height (rev formats))"

definition target_heights :: "int list" where
  "target_heights = [2160, 1440, 1080, 720, 480, 360, 240]"

definition tier_of :: "entry \<Rightarrow> tier" where
  "tier_of f =
     \<lparr> t_format_id = e_format_id f, t_quality = e_quality f, t_height = e_height f,
       t_ext = e_ext f, t_filesize = e_filesize f, t_filesize_str = e_filesize_str f,
       t_has_audio = e_has_audio f, t_audio_only = False \<rparr>"

definition audio_tier :: tier where
  "audio_tier =
     \<lparr> t_format_id = Some (lit ''bestaudio''),
       t_quality = lit ''Apenas '' @ [193] @ lit ''udio'',
       t_height = 0, t_ext = Some (lit ''mp3''), t_filesize = Some 0,
       t_filesize_str = lit ''MP3'', t_has_audio = True, t_audio_only = True \<rparr>"

text \<open>Lines 177 to 186: for each target height, the first format of that height.\<close>

fun select_formats :: "int list \<Rightarrow> entry list \<Rightarrow> tier list" where
  "select_formats [] formats = []"
| "select_formats (target # targets) formats =
     (case find (\<lambda>f. e_height f = target) formats of
        None \<Rightarrow> select_formats targets formats
      | Some f \<Rightarrow> tier_of f # select_formats targets formats)"

text \<open>
  The format processing of \<open>get_video_info\<close> (lines 129 to 198), from the list
  \<open>info.get('formats', [])\<close> to \<open>final_formats\<close>.
\<close>

definition rank :: "descriptor list \<Rightarrow> error + tier list" where
  "rank descriptors =
     (case group_formats descriptors [] of
        Inl e \<Rightarrow> Inl e
      | Inr formats_by_height \<Rightarrow>
          Inr (select_formats target_heights (sort_by_height_desc (map snd formats_by_height))
               @ [audio_tier]))"

text \<open>
  The scenario of the specification: heights 1080, 1080, 720, 360 with bit rates 5000,
  8000, 3000, 1000.
\<close>

definition mk_format :: "pystr \<Rightarrow> int \<Rightarrow> rat \<Rightarrow> descriptor" where
  "mk_format fid h b =
     \<lparr> f_vcodec = Val (lit ''avc1''), f_height = Val h, f_format_id = Val fid,
       f_ext = Val (lit ''mp4''), f_filesize = Null, f_filesize_approx = Absent,
       f_vbr = Val b, f_tbr = Absent, f_acodec = Val (lit ''none'') \<rparr>"

definition example_formats :: "descriptor list" where
  "example_formats =
     [mk_format (lit ''a'') 1080 5000, mk_format (lit ''b'') 1080 8000,
      mk_format (lit ''c'') 720 3000, mk_format (lit ''d'') 360 1000]"


definition example_tiers :: "tier list" where
  "example_tiers =
     [tier_of (entry_of (mk_format (lit ''b'') 1080 8000) 1080),
      tier_of (entry_of (mk_format (lit ''c'') 720 3000) 720),
      tier_of (entry_of (mk_format (lit ''d'') 360 1000) 360),
      audio_tier]"

text \<open>
  The vocabulary of the ranking properties: a descriptor survives the filter with height
  \<open>h\<close>; an entry is at least as good as a descriptor (a higher bit rate, or the same bit
  rate and a file size that is not smaller; an unknown size only compares with itself);
  the representative of a height is the entry of \<open>formats_by_height\<close> at the end of
  the loop.
\<close>

definition size_le :: "int option \<Rightarrow> int option \<Rightarrow> bool" where
  "size_le a b = (a = b \<or> (case (a, b) of (Some x, Some y) \<Rightarrow> x \<le> y | _ \<Rightarrow> False))"

definition keeps :: "descriptor \<Rightarrow> int \<Rightarrow> bool" where
  "keeps f h = (f_vcodec f \<noteq> Val (lit ''none'') \<and> f_height f = Val h \<and> h \<noteq> 0)"

definition dominated :: "descriptor \<Rightarrow> entry \<Rightarrow> bool" where
  "dominated f r =
     (vbr_of f \<le> e_vbr r \<and> (vbr_of f = e_vbr r \<longrightarrow> size_le (filesize_of f) (e_filesize r)))"

definition representative :: "descriptor list \<Rightarrow> int \<Rightarrow> entry option" where
  "representative descriptors h =
     (case group_formats descriptors [] of Inl e \<Rightarrow> None | Inr m \<Rightarrow> map_of m h)"

text \<open>The invariant of the loop, for the descriptors seen so far.\<close>

definition group_inv :: "descriptor list \<Rightarrow> (int \<times> entry) list \<Rightarrow> bool" where
  "group_inv seen m =
     (\<forall>h. case map_of m h of
            None \<Rightarrow> (\<forall>f\<in>set seen. \<not> keeps f h)
          | Some r \<Rightarrow> (\<exists>f\<in>set seen. keeps f h \<and> r = entry_of f h)
                      \<and> (\<forall>f\<in>set seen. keeps f h \<longrightarrow> dominated f r))"

text \<open>
  The keys of the ranking as the specification words them: the video bit rate, falling
  back to the overall bit rate, with 0 when both are absent; and the file size, exact when
  known and approximate otherwise. A value is absent when its key is missing or holds
  \<open>None\<close> or 0.
\<close>

definition present :: "'a::zero field \<Rightarrow> 'a option" where
  "present x = (case x of Val v \<Rightarrow> if v = 0 then None else Some v | _ \<Rightarrow> None)"

definition spec_bitrate :: "descriptor \<Rightarrow> rat" where
  "spec_bitrate f =
     (case present (f_vbr f) of
        Some video_bitrate \<Rightarrow> video_bitrate
      | None \<Rightarrow> (case present (f_tbr f) of Some overall_bitrate \<Rightarrow> overall_bitrate | None \<Rightarrow> 0))"

definition spec_size :: "descriptor \<Rightarrow> int option" where
  "spec_size f =
     (case present (f_filesize f) of
        Some exact \<Rightarrow> Some exact
      | None \<Rightarrow> (case f_filesize_approx f of
                   Absent \<Rightarrow> Some 0 | Null \<Rightarrow> None | Val approx \<Rightarrow> Some approx))"

text \<open>
  A second scenario, all of height 720 but one audio-only entry: \<open>x\<close> and \<open>y\<close> have
  only an overall bit rate (5000 and 8000); \<open>z\<close> has the video bit rate 8000, a lower
  overall bit rate and the size 200; \<open>w\<close> has the video bit rate 8000 and the size
  150; \<open>v\<close> has the video bit rate 7000 and the largest size.
\<close>

definition fmt_x :: descriptor where
  "fmt_x =
     \<lparr> f_vcodec = Val (lit ''vp9''), f_height = Val 720, f_format_id = Val (lit ''x''),
       f_ext = Val (lit ''webm''), f_filesize = Val 100, f_filesize_approx = Absent,
       f_vbr = Absent, f_tbr = Val 5000, f_acodec = Val (lit ''none'') \<rparr>"

definition fmt_y :: descriptor where
  "fmt_y =
     \<lparr> f_vcodec = Val (lit ''vp9''), f_height = Val 720, f_format_id = Val (lit ''y''),
       f_ext = Val (lit ''webm''), f_filesize = Val 100, f_filesize_approx = Absent,
       f_vbr = Null, f_tbr = Val 8000, f_acodec = Val (lit ''none'') \<rparr>"

definition fmt_z :: descriptor where
  "fmt_z =
     \<lparr> f_vcodec = Val (lit ''avc1''), f_height = Val 720, f_format_id = Val (lit ''z''),
       f_ext = Absent, f_filesize = Null, f_filesize_approx = Val 200,
       f_vbr = Val 8000, f_tbr = Val 1, f_acodec = Val (lit ''mp4a'') \<rparr>"

definition fmt_w :: descriptor where
  "fmt_w =
     \<lparr> f_vcodec = Val (lit ''avc1''), f_height = Val 720, f_format_id = Val (lit ''w''),
       f_ext = Val (lit ''mp4''), f_filesize = Val 150, f_filesize_approx = Val 999,
       f_vbr = Val 8000, f_tbr = Absent, f_acodec = Val (lit ''none'') \<rparr>"

definition fmt_v :: descriptor where
  "fmt_v =
     \<lparr> f_vcodec = Val (lit ''avc1''), f_height = Val 720, f_format_id = Val (lit ''v''),
       f_ext = Val (lit ''mp4''), f_filesize = Val 999, f_filesize_approx = Absent,
       f_vbr = Val 7000, f_tbr = Val 9000, f_acodec = Val (lit ''none'') \<rparr>"

definition fmt_audio :: descriptor where
  "fmt_audio =
     \<lparr> f_vcodec = Val (lit ''none''), f_height = Val 480, f_format_id = Val (lit ''m''),
       f_ext = Val (lit ''m4a''), f_filesize = Val 50, f_filesize_approx = Absent,
       f_vbr = Val 9000, f_tbr = Val 9000, f_acodec = Val (lit ''mp4a'') \<rparr>"

definition tie_formats :: "descriptor list" where
  "tie_formats = [fmt_x, fmt_audio, fmt_y, fmt_z, fmt_w, fmt_v]"

text \<open>The options expected in the two scenarios, written out.\<close>

definition video_1080_b :: tier where
  "video_1080_b =
     \<lparr> t_format_id = Some (lit ''b''), t_quality = lit ''1080p'', t_height = 1080,
       t_ext = Some (lit ''mp4''), t_filesize = Some 0,
       t_filesize_str = lit ''Tamanho desconhecido'', t_has_audio = False,
       t_audio_only = False \<rparr>"

definition video_720_c :: tier where
  "video_720_c =
     \<lparr> t_format_id = Some (lit ''c''), t_quality = lit ''720p'', t_height = 720,
       t_ext = Some (lit ''mp4''), t_filesize = Some 0,
       t_filesize_str = lit ''Tamanho desconhecido'', t_has_audio = False,
       t_audio_only = False \<rparr>"

definition video_360_d :: tier where
  "video_360_d =
     \<lparr> t_format_id = Some (lit ''d''), t_quality = lit ''360p'', t_height = 360,
       t_ext = Some (lit ''mp4''), t_filesize = Some 0,
       t_filesize_str = lit ''Tamanho desconhecido'', t_has_audio = False,
       t_audio_only = False \<rparr>"

definition video_720_z :: tier where
  "video_720_z =
     \<lparr> t_format_id = Some (lit ''z''), t_quality = lit ''720p'', t_height = 720,
       t_ext = Some (lit ''mp4''), t_filesize = Some 200,
       t_filesize_str = lit ''200.0 B'', t_has_audio = True,
       t_audio_only = False \<rparr>"


text \<open>Keys are distinct and every entry is stored under its own height.\<close>

definition keyed :: "(int \<times> entry) list \<Rightarrow> bool" where
  "keyed m = (distinct (map fst m) \<and> (\<forall>(h, r)\<in>set m. e_height r = h))"

section \<open>The progress cache\<close>

text \<open>
  The dictionary \<open>d\<close> that the provider passes to \<open>progress_hook\<close>. \<open>status\<close> is
  always present; \<open>info_dict\<close> may be missing and may lack the key \<open>id\<close>, which is a
  string when present; \<open>total_bytes\<close>, \<open>total_bytes_estimate\<close>, \<open>speed\<close> and \<open>eta\<close>
  may be missing or \<open>None\<close>; \<open>downloaded_bytes\<close> is a number when present. Byte counts,
  speeds and times are ints or floats, each given by the rational it denotes.
\<close>

record info_dict =
  i_id :: "pystr option"

record event =
  d_status :: pystr
  d_info_dict :: "info_dict option"
  d_total_bytes :: "rat field"
  d_total_bytes_estimate :: "rat field"
  d_downloaded_bytes :: "rat option"
  d_speed :: "rat field"
  d_eta :: "rat field"

text \<open>
  A value of \<open>download_progress\<close>. The keys \<open>speed\<close> and \<open>eta\<close> exist only in the
  records written while downloading (\<open>Absent\<close> elsewhere) and may hold \<open>None\<close>.
  \<open>download_progress\<close> itself maps video ids to such records.
\<close>

record job =
  j_status :: pystr
  j_percent :: rat
  j_speed :: "rat field"
  j_eta :: "rat field"

type_synonym store = "pystr \<Rightarrow> job option"

text \<open>\<open>d.get('info_dict', {}).get('id', 'unknown')\<close>.\<close>

definition video_id_of :: "event \<Rightarrow> pystr" where
  "video_id_of d =
     (case d_info_dict d of
        None \<Rightarrow> lit ''unknown''
      | Some i \<Rightarrow> (case i_id i of None \<Rightarrow> lit ''unknown'' | Some v \<Rightarrow> v))"

text \<open>
  \<open>d.get('total_bytes') or d.get('total_bytes_estimate', 0)\<close>: \<open>None\<close> when
  \<open>total_bytes\<close> is falsy and \<open>total_bytes_estimate\<close> is present with \<open>None\<close>.
\<close>

definition total_of :: "event \<Rightarrow> rat option" where
  "total_of d =
     (case d_total_bytes d of
        Val t \<Rightarrow> if t \<noteq> 0 then Some t
                 else (case d_total_bytes_estimate d of
                         Absent \<Rightarrow> Some 0 | Null \<Rightarrow> None | Val e \<Rightarrow> Some e)
      | _ \<Rightarrow> (case d_total_bytes_estimate d of
                 Absent \<Rightarrow> Some 0 | Null \<Rightarrow> None | Val e \<Rightarrow> Some e))"

text \<open>\<open>d.get('downloaded_bytes', 0)\<close>, and \<open>d.get('speed', 0)\<close>, \<open>d.get('eta', 0)\<close>.\<close>

definition downloaded_of :: "event \<Rightarrow> rat" where
  "downloaded_of d = (case d_downloaded_bytes d of None \<Rightarrow> 0 | Some b \<Rightarrow> b)"

definition get_default :: "rat field \<Rightarrow> rat \<Rightarrow> rat field" where
  "get_default x dflt = (case x of Absent \<Rightarrow> Val dflt | _ \<Rightarrow> x)"

text \<open>
  \<open>round(x, 1)\<close> of a float \<open>x\<close>: Python rounds the exact value of \<open>x\<close> to the
  nearest decimal with one digit, a tie going to the even digit, and returns the float
  nearest to that decimal. That float prints as the decimal (and so appears in the JSON
  answer); it is modelled by the decimal.
\<close>

definition round1 :: "rat \<Rightarrow> rat" where
  "round1 x = of_int (round_half_even (x * 10)) / 10"

text \<open>
  The records written on lines 82 to 87, lines 90 to 93 and line 277, and the default of
  \<open>get_progress\<close> on line 351. \<open>(downloaded / total) * 100\<close> is a division followed
  by a multiplication of floats.
\<close>

definition downloading_job :: "event \<Rightarrow> rat \<Rightarrow> job" where
  "downloading_job d tot =
     \<lparr> j_status = lit ''downloading'',
       j_percent = round1 (fl (fl (downloaded_of d / tot) * 100)),
       j_speed = get_default (d_speed d) 0,
       j_eta = get_default (d_eta d) 0 \<rparr>"

definition finished_job :: job where
  "finished_job = \<lparr> j_status = lit ''finished'', j_percent = 100, j_speed = Absent, j_eta = Absent \<rparr>"

definition starting_job :: job where
  "starting_job = \<lparr> j_status = lit ''starting'', j_percent = 0, j_speed = Absent, j_eta = Absent \<rparr>"

definition default_progress :: job where
  "default_progress = \<lparr> j_status = lit ''unknown'', j_percent = 0, j_speed = Absent, j_eta = Absent \<rparr>"

text \<open>
  \<open>progress_hook\<close> returns the exception it raised, if any, and the cache afterwards.
  \<open>total > 0\<close> raises \<open>TypeError\<close> when \<open>total\<close> is \<open>None\<close>; the cache is written
  only by the last statement of a branch, so a raise leaves it as it was.
\<close>

definition progress_hook :: "event \<Rightarrow> store \<Rightarrow> error option \<times> store" where
  "progress_hook d download_progress =
     (if d_status d = lit ''downloading'' then
        (case total_of d of
           None \<Rightarrow> (Some TypeError, download_progress)
         | Some tot \<Rightarrow>
             if tot > 0
             then (None, download_progress(video_id_of d \<mapsto> downloading_job d tot))
             else (None, download_progress))
      else if d_status d = lit ''finished'' then
        (None, download_progress(video_id_of d \<mapsto> finished_job))
      else (None, download_progress))"

text \<open>Line 277 of \<open>download_video\<close>, and \<open>get_progress\<close> (lines 349 to 352).\<close>

definition create :: "pystr \<Rightarrow> store \<Rightarrow> store" where
  "create video_id download_progress = download_progress(video_id \<mapsto> starting_job)"

definition get_progress :: "store \<Rightarrow> pystr \<Rightarrow> job" where
  "get_progress download_progress video_id =
     (case download_progress video_id of None \<Rightarrow> default_progress | Some progress \<Rightarrow> progress)"

text \<open>
  The writers of the cache in the order in which they run, and the id each one writes to.
\<close>

datatype op = Create pystr | Hook event

fun apply_op :: "op \<Rightarrow> store \<Rightarrow> store" where
  "apply_op (Create video_id) st = create video_id st"
| "apply_op (Hook d) st = snd (progress_hook d st)"

fun run :: "op list \<Rightarrow> store \<Rightarrow> store" where
  "run [] st = st"
| "run (x # xs) st = run xs (apply_op x st)"

fun target :: "op \<Rightarrow> pystr" where
  "target (Create video_id) = video_id"
| "target (Hook d) = video_id_of d"




definition no_id :: "event \<Rightarrow> bool" where
  "no_id d = (case d_info_dict d of None \<Rightarrow> True | Some i \<Rightarrow> i_id i = None)"

text \<open>Concrete progress events.\<close>

definition overshoot :: event where
  "overshoot =
     \<lparr> d_status = lit ''downloading'', d_info_dict = Some \<lparr> i_id = Some (lit ''abc'') \<rparr>,
       d_total_bytes = Null, d_total_bytes_estimate = Val 100,
       d_downloaded_bytes = Some 150, d_speed = Val 1000, d_eta = Val 0 \<rparr>"


definition anonymous :: event where
  "anonymous =
     \<lparr> d_status = lit ''downloading'', d_info_dict = Some \<lparr> i_id = None \<rparr>,
       d_total_bytes = Val 200, d_total_bytes_estimate = Absent,
       d_downloaded_bytes = Some 50, d_speed = Null, d_eta = Null \<rparr>"

definition tie :: event where
  "tie =
     \<lparr> d_status = lit ''downloading'', d_info_dict = Some \<lparr> i_id = Some (lit ''abc'') \<rparr>,
       d_total_bytes = Val 80, d_total_bytes_estimate = Absent,
       d_downloaded_bytes = Some 23, d_speed = Absent, d_eta = Null \<rparr>"

definition tiny :: event where
  "tiny =
     \<lparr> d_status = lit ''downloading'', d_info_dict = Some \<lparr> i_id = Some (lit ''abc'') \<rparr>,
       d_total_bytes = Null, d_total_bytes_estimate = Val 2000,
       d_downloaded_bytes = Some 1, d_speed = Val 1000, d_eta = Val 2 \<rparr>"

definition zero_total :: event where
  "zero_total =
     \<lparr> d_status = lit ''downloading'', d_info_dict = Some \<lparr> i_id = Some (lit ''abc'') \<rparr>,
       d_total_bytes = Val 0, d_total_bytes_estimate = Absent,
       d_downloaded_bytes = Some 50, d_speed = Val 1000, d_eta = Null \<rparr>"

definition unknown_total :: event where
  "unknown_total =
     \<lparr> d_status = lit ''downloading'', d_info_dict = Some \<lparr> i_id = Some (lit ''abc'') \<rparr>,
       d_total_bytes = Null, d_total_bytes_estimate = Null,
       d_downloaded_bytes = Some 50, d_speed = Null, d_eta = Null \<rparr>"


text \<open>The record that \<open>progress_hook\<close> writes for an event, if it writes one.\<close>

definition written :: "event \<Rightarrow> job option" where
  "written d =
     (if d_status d = lit ''downloading'' then
        (case total_of d of
           None \<Rightarrow> None
         | Some tot \<Rightarrow> if tot > 0 then Some (downloading_job d tot) else None)
      else if d_status d = lit ''finished'' then Some finished_job
      else None)"

definition anonymous_finished :: event where
  "anonymous_finished =
     \<lparr> d_status = lit ''finished'', d_info_dict = None,
       d_total_bytes = Val 200, d_total_bytes_estimate = Absent,
       d_downloaded_bytes = Some 200, d_speed = Absent, d_eta = Absent \<rparr>"

section \<open>The outcome of download\_video\<close>

text \<open>
  What the \<open>try\<close> block of \<open>download_video\<close> can raise, with \<open>str(e)\<close>, and for an
  \<open>OSError\<close> its \<open>errno\<close>; the handlers are tried in the order \<open>DownloadError\<close>,
  \<open>OSError\<close>, \<open>Exception\<close>. A response is a status code and a JSON body: an error
  message, or the video id, file name and message of a success.
\<close>

datatype exn = DownloadError pystr | OSError "int option" pystr | OtherException pystr

datatype body = JError pystr | JSuccess "pystr option" pystr pystr

type_synonym response = "nat \<times> body"

text \<open>The messages of lines 318, 321, 328, 335 and 343 (accented letters by code point).\<close>

definition invalid_filename_msg :: pystr where
  "invalid_filename_msg =
     lit ''Erro ao salvar arquivo: nome do arquivo inv'' @ [225]
       @ lit ''lido. Tente novamente ou escolha outro v'' @ [237] @ lit ''deo.''"

definition invalid_chars_msg :: pystr where
  "invalid_chars_msg =
     lit ''Erro ao salvar arquivo: nome do arquivo cont'' @ [233]
       @ lit ''m caracteres inv'' @ [225] @ lit ''lidos. Tente novamente.''"

definition invalid_name_msg :: pystr where
  "invalid_name_msg =
     lit ''Erro ao salvar arquivo: nome inv'' @ [225] @ lit ''lido. Tente novamente.''"

definition not_found_msg :: pystr where
  "not_found_msg =
     lit ''Arquivo n'' @ [227] @ lit ''o encontrado ap'' @ [243] @ lit ''s download''"

definition done_msg :: pystr where
  "done_msg = lit ''Download conclu'' @ [237] @ lit ''do!''"

text \<open>\<open>'Invalid argument' in error_msg or 'Errno 22' in error_msg\<close>.\<close>

definition mentions_errno22 :: "pystr \<Rightarrow> bool" where
  "mentions_errno22 error_msg =
     (contains (lit ''Invalid argument'') error_msg \<or> contains (lit ''Errno 22'') error_msg)"

fun handle_exception :: "exn \<Rightarrow> response" where
  "handle_exception (DownloadError error_msg) =
     (if mentions_errno22 error_msg then (400, JError invalid_filename_msg)
      else (400, JError (lit ''Erro no download: '' @ error_msg)))"
| "handle_exception (OSError errno msg) =
     (if errno = Some 22 then (400, JError invalid_chars_msg)
      else (500, JError (lit ''Erro do sistema: '' @ msg)))"
| "handle_exception (OtherException error_msg) =
     (if mentions_errno22 error_msg then (400, JError invalid_name_msg)
      else (500, JError (lit ''Erro interno: '' @ error_msg)))"

text \<open>
  Lines 306 to 321: the first entry of \<open>os.listdir(DOWNLOAD_DIR)\<close> that contains the
  first 30 characters of the title, and the response built from it. \<open>path_exists\<close> is
  \<open>os.path.exists\<close> at that moment.
\<close>

definition basename :: "pystr \<Rightarrow> pystr" where
  "basename p = rev (takeWhile (\<lambda>c. c \<noteq> 47) (rev p))"

definition find_downloaded :: "pystr \<Rightarrow> pystr list \<Rightarrow> pystr \<Rightarrow> pystr option" where
  "find_downloaded download_dir listing title =
     (case find (\<lambda>f. contains (take 30 title) f) listing of
        None \<Rightarrow> None
      | Some f \<Rightarrow> Some (path_join download_dir f))"

definition locate_file ::
  "pystr \<Rightarrow> pystr list \<Rightarrow> (pystr \<Rightarrow> bool) \<Rightarrow> pystr option \<Rightarrow> pystr \<Rightarrow> response" where
  "locate_file download_dir listing path_exists video_id title =
     (case find_downloaded download_dir listing title of
        None \<Rightarrow> (500, JError not_found_msg)
      | Some downloaded_file \<Rightarrow>
          if downloaded_file \<noteq> [] \<and> path_exists downloaded_file
          then (200, JSuccess video_id (basename downloaded_file) done_msg)
          else (500, JError not_found_msg))"

text \<open>
  The end of \<open>download_video\<close>: either the \<open>try\<close> block raised, or the download
  returned and the directory listing is searched.
\<close>

definition finish_download ::
  "pystr \<Rightarrow> (pystr \<Rightarrow> bool) \<Rightarrow> pystr option \<Rightarrow> pystr \<Rightarrow> exn + pystr list \<Rightarrow> response" where
  "finish_download download_dir path_exists video_id title outcome =
     (case outcome of
        Inl e \<Rightarrow> handle_exception e
      | Inr listing \<Rightarrow> locate_file download_dir listing path_exists video_id title)"

text \<open>A download directory of 235 characters, used as a concrete input below.\<close>

definition long_dir :: pystr where
  "long_dir = lit ''/'' @ replicate 224 97 @ lit ''/downloads''"

section \<open>Facts about the string helpers\<close>

lemma dropWhile_replicate_keep: "\<not> p c \<Longrightarrow> dropWhile p (replicate n c) = replicate n c"
  by (cases n) simp_all

lemma collapse_ws_replicate:
  "\<not> is_space c \<Longrightarrow> collapse_ws (replicate n c @ ys) = replicate n c @ collapse_ws ys"
  by (induction n) simp_all

lemma length_rstrip_chars_le: "length (rstrip_chars p s) \<le> length s"
  by (simp add: rstrip_chars_def length_dropWhile_le [of p "rev s", simplified])

section \<open>Sanitize is not idempotent\<close>

text \<open>
  C3. The claim is that \<open>sanitize_filename (sanitize_filename s) = sanitize_filename s\<close>
  for every \<open>s\<close>. It fails when the cut at 200 characters exposes a period: trailing
  periods are removed before the cut, and after the cut only whitespace is removed. For
  the title made of 199 letters \<open>a\<close> followed by \<open>.b\<close> the first pass returns the 199
  letters and the period, and a second pass removes that period.
\<close>

theorem sanitize_filename_not_idempotent:
  "sanitize_filename (replicate 199 97 @ lit ''.b'') = replicate 199 97 @ lit ''.''
   \<and> sanitize_filename (sanitize_filename (replicate 199 97 @ lit ''.b'')) = replicate 199 97
   \<and> sanitize_filename (sanitize_filename (replicate 199 97 @ lit ''.b''))
       \<noteq> sanitize_filename (replicate 199 97 @ lit ''.b'')"
proof -
  have ns: "\<not> is_space 97" "\<not> is_space 46" "\<not> is_space 98"
    by (simp_all add: is_space_def)
  have ni: "\<not> is_invalid 97" "\<not> is_invalid 46" "\<not> is_invalid 98"
    by (simp_all add: is_invalid_def)
  have c1: "collapse_ws (replicate 199 97 @ [46, 98]) = replicate 199 97 @ [46, 98]"
    by (simp add: collapse_ws_replicate ns)
  have c2: "collapse_ws (replicate 199 97 @ [46]) = replicate 199 97 @ [46]"
    by (simp add: collapse_ws_replicate ns)
  have d1: "dropWhile is_space (replicate 199 97 @ ys) = replicate 199 97 @ ys" for ys
    by (simp add: dropWhile_append3 ns)
  have first: "sanitize_filename (replicate 199 97 @ lit ''.b'') = replicate 199 97 @ lit ''.''"
    by (simp add: sanitize_filename_def lit_def ni c1 d1 strip_def rstrip_def
        rstrip_chars_def ns max_length_def)
  have second: "sanitize_filename (replicate 199 97 @ lit ''.'') = replicate 199 97"
    by (simp add: sanitize_filename_def lit_def ni c2 d1 strip_def rstrip_def
        rstrip_chars_def ns max_length_def dropWhile_replicate_keep)
  have "replicate 199 (97::nat) \<noteq> replicate 199 97 @ lit ''.''"
    by (simp add: lit_def)
  with first second show ?thesis by simp
qed

section \<open>The length of the output path\<close>

lemma length_str_replace_le:
  "length new \<le> length old \<Longrightarrow> length (str_replace old new s) \<le> length s"
proof (induction old new s rule: str_replace.induct)
  case (1 old new s)
  show ?case
  proof (cases "old = []")
    case True
    with 1(3) have "new = []" by simp
    with True have "str_replace old new s = concat (map (\<lambda>c. [c]) s)"
      by (simp add: str_replace.simps)
    moreover have "length (concat (map (\<lambda>c. [c]) s)) = length s"
      by (induction s) simp_all
    ultimately show ?thesis by simp
  next
    case False
    show ?thesis
    proof (cases "s = []")
      case True
      with False show ?thesis by (simp add: str_replace.simps)
    next
      case ne: False
      show ?thesis
      proof (cases "prefix old s")
        case True
        then have "length old \<le> length s" by (rule prefix_length_le)
        moreover have "length (str_replace old new (drop (length old) s)) \<le> length s - length old"
          using 1(1) [OF False ne True 1(3)] by simp
        moreover have "str_replace old new s = new @ str_replace old new (drop (length old) s)"
          using False ne True by (subst str_replace.simps) simp
        ultimately show ?thesis using 1(3) by simp
      next
        case np: False
        have "str_replace old new s = hd s # str_replace old new (tl s)"
          using False ne np by (subst str_replace.simps) simp
        moreover have "length (str_replace old new (tl s)) \<le> length s - 1"
          using 1(2) [OF False ne np 1(3)] by simp
        ultimately show ?thesis using ne by (cases s) simp_all
      qed
    qed
  qed
qed

lemma str_replace_split:
  "old \<noteq> [] \<Longrightarrow> c \<notin> set old \<Longrightarrow>
   str_replace old new (xs @ c # ys) = str_replace old new xs @ c # str_replace old new ys"
proof (induction old new xs rule: str_replace.induct)
  case (1 old new xs)
  show ?case
  proof (cases "xs = []")
    case True
    have "\<not> prefix old (c # ys)"
      using 1(3,4) by (cases old) auto
    then have "str_replace old new (c # ys) = c # str_replace old new ys"
      using 1(3) by (subst str_replace.simps) simp
    moreover have "str_replace old new [] = []"
      using 1(3) by (subst str_replace.simps) simp
    ultimately show ?thesis using True by simp
  next
    case ne: False
    show ?thesis
    proof (cases "prefix old xs")
      case True
      then have p2: "prefix old (xs @ c # ys)" by (simp add: prefix_prefix)
      from True have le: "length old \<le> length xs" by (rule prefix_length_le)
      have a: "str_replace old new (xs @ c # ys)
            = new @ str_replace old new (drop (length old) (xs @ c # ys))"
        using 1(3) p2 by (subst str_replace.simps) simp
      have b: "drop (length old) (xs @ c # ys) = drop (length old) xs @ c # ys"
        using le by simp
      have c: "str_replace old new (drop (length old) xs @ c # ys)
            = str_replace old new (drop (length old) xs) @ c # str_replace old new ys"
        using 1(1) [OF 1(3) ne True 1(3) 1(4)] .
      have d: "str_replace old new xs = new @ str_replace old new (drop (length old) xs)"
        using 1(3) ne True by (subst str_replace.simps) simp
      show ?thesis by (simp only: a b c d append_assoc)
    next
      case np: False
      have np2: "\<not> prefix old (xs @ c # ys)"
      proof
        assume "prefix old (xs @ c # ys)"
        then have "prefix old xs \<or> (\<exists>us. us \<noteq> [] \<and> prefix us (c # ys) \<and> old = xs @ us)"
          by (auto simp: prefix_append)
        with np obtain us where "us \<noteq> []" "prefix us (c # ys)" "old = xs @ us" by blast
        then have "c \<in> set old" by (cases us) auto
        with 1(4) show False by simp
      qed
      have a: "str_replace old new (xs @ c # ys)
            = hd xs # str_replace old new (tl xs @ c # ys)"
        using 1(3) ne np2 by (subst str_replace.simps) simp
      have c: "str_replace old new (tl xs @ c # ys)
            = str_replace old new (tl xs) @ c # str_replace old new ys"
        using 1(2) [OF 1(3) ne np 1(3) 1(4)] .
      have d: "str_replace old new xs = hd xs # str_replace old new (tl xs)"
        using 1(3) ne np by (subst str_replace.simps) simp
      show ?thesis by (simp only: a c d append_Cons)
    qed
  qed
qed

lemma str_replace_absent:
  "old \<noteq> [] \<Longrightarrow> hd old \<notin> set s \<Longrightarrow> str_replace old new s = s"
proof (induction s)
  case Nil
  then show ?case by (subst str_replace.simps) simp
next
  case (Cons a s)
  then have "\<not> prefix old (a # s)" by (cases old) auto
  with Cons show ?case by (subst str_replace.simps) simp
qed

lemma replace_ext_tail:
  "str_replace (lit ''%(ext)s'') (lit ''mp4'') (lit ''%(height)sp.%(ext)s'') = lit ''%(height)sp.mp4''"
  by (simp add: lit_def str_replace.simps)

lemma replace_ext_only:
  "str_replace (lit ''%(ext)s'') (lit ''mp4'') (lit ''%(ext)s'') = lit ''mp4''"
  by (simp add: lit_def str_replace.simps)

lemma replace_height_tail:
  "str_replace (lit ''%(height)s'') (lit ''1080'') (lit ''%(height)sp.mp4'') = lit ''1080p.mp4''"
  by (simp add: lit_def str_replace.simps)

lemma replace_height_mp4:
  "str_replace (lit ''%(height)s'') (lit ''1080'') (lit ''mp4'') = lit ''mp4''"
  by (simp add: lit_def str_replace.simps)

lemma test_path_of_video:
  "test_path_of (p @ lit ''_%(height)sp.%(ext)s'') = test_path_of p @ lit ''_1080p.mp4''"
proof -
  have t: "lit ''_%(height)sp.%(ext)s'' = 95 # lit ''%(height)sp.%(ext)s''"
    by (simp add: lit_def)
  have e: "str_replace (lit ''%(ext)s'') (lit ''mp4'') (p @ 95 # lit ''%(height)sp.%(ext)s'')
         = str_replace (lit ''%(ext)s'') (lit ''mp4'') p @ 95 # lit ''%(height)sp.mp4''"
    using str_replace_split [of "lit ''%(ext)s''" 95 "lit ''mp4''" p "lit ''%(height)sp.%(ext)s''"]
      replace_ext_tail by (simp add: lit_def)
  have h: "str_replace (lit ''%(height)s'') (lit ''1080'') (q @ 95 # lit ''%(height)sp.mp4'')
         = str_replace (lit ''%(height)s'') (lit ''1080'') q @ 95 # lit ''1080p.mp4''" for q
    using str_replace_split [of "lit ''%(height)s''" 95 "lit ''1080''" q "lit ''%(height)sp.mp4''"]
      replace_height_tail by (simp add: lit_def)
  show ?thesis
    unfolding test_path_of_def t e h by (simp add: lit_def)
qed

lemma test_path_of_audio:
  "test_path_of (p @ lit ''.%(ext)s'') = test_path_of p @ lit ''.mp4''"
proof -
  have t: "lit ''.%(ext)s'' = 46 # lit ''%(ext)s''"
    by (simp add: lit_def)
  have e: "str_replace (lit ''%(ext)s'') (lit ''mp4'') (p @ 46 # lit ''%(ext)s'')
         = str_replace (lit ''%(ext)s'') (lit ''mp4'') p @ 46 # lit ''mp4''"
    using str_replace_split [of "lit ''%(ext)s''" 46 "lit ''mp4''" p "lit ''%(ext)s''"]
      replace_ext_only by (simp add: lit_def)
  have h: "str_replace (lit ''%(height)s'') (lit ''1080'') (q @ 46 # lit ''mp4'')
         = str_replace (lit ''%(height)s'') (lit ''1080'') q @ 46 # lit ''mp4''" for q
    using str_replace_split [of "lit ''%(height)s''" 46 "lit ''1080''" q "lit ''mp4''"]
      replace_height_mp4 by (simp add: lit_def)
  show ?thesis
    unfolding test_path_of_def t e h by (simp add: lit_def)
qed

lemma length_test_path_of_le: "length (test_path_of p) \<le> length p"
proof -
  have "length (test_path_of p) \<le> length (str_replace (lit ''%(ext)s'') (lit ''mp4'') p)"
    unfolding test_path_of_def by (rule length_str_replace_le) (simp add: lit_def)
  also have "\<dots> \<le> length p"
    by (rule length_str_replace_le) (simp add: lit_def)
  finally show ?thesis .
qed

lemma path_join_shape: "\<exists>p. path_join a b = p @ b \<and> length p \<le> length a + 1"
proof (cases "prefix (lit ''/'') b")
  case True
  then have "path_join a b = [] @ b" by (simp add: path_join_def)
  then show ?thesis by (intro exI [of _ "[]"]) simp
next
  case False
  show ?thesis
  proof (cases "a = [] \<or> suffix (lit ''/'') a")
    case True
    with False have "path_join a b = a @ b" by (simp add: path_join_def)
    then show ?thesis by (intro exI [of _ a]) simp
  next
    case f2: False
    with False have "path_join a b = (a @ lit ''/'') @ b" by (simp add: path_join_def)
    then show ?thesis by (intro exI [of _ "a @ lit ''/''"]) (simp add: lit_def)
  qed
qed

lemma length_test_path_outtmpl:
  "length (test_path_of (outtmpl_of d t a)) \<le> length d + length t + 11"
proof (cases a)
  case True
  obtain p where p: "path_join d (t @ lit ''.%(ext)s'') = p @ t @ lit ''.%(ext)s''"
      "length p \<le> length d + 1"
    using path_join_shape [of d "t @ lit ''.%(ext)s''"] by auto
  have "test_path_of (outtmpl_of d t a) = test_path_of (p @ t) @ lit ''.mp4''"
    using True p(1) test_path_of_audio [of "p @ t"] by (simp add: outtmpl_of_def)
  moreover have "length (test_path_of (p @ t)) \<le> length p + length t"
    using length_test_path_of_le [of "p @ t"] by simp
  ultimately show ?thesis using p(2) by (simp add: lit_def)
next
  case False
  obtain p where p: "path_join d (t @ lit ''_%(height)sp.%(ext)s'') = p @ t @ lit ''_%(height)sp.%(ext)s''"
      "length p \<le> length d + 1"
    using path_join_shape [of d "t @ lit ''_%(height)sp.%(ext)s''"] by auto
  have "test_path_of (outtmpl_of d t a) = test_path_of (p @ t) @ lit ''_1080p.mp4''"
    using False p(1) test_path_of_video [of "p @ t"] by (simp add: outtmpl_of_def)
  moreover have "length (test_path_of (p @ t)) \<le> length p + length t"
    using length_test_path_of_le [of "p @ t"] by simp
  ultimately show ?thesis using p(2) by (simp add: lit_def)
qed

lemma length_rstrip_take: "length (rstrip (take n t)) \<le> n"
  using length_rstrip_chars_le [of is_space "take n t"] by (simp add: rstrip_def)

text \<open>
  C4, as amended. When the download directory is at most 234 characters long, the final
  output template of \<open>download_video\<close>, with \<open>mp4\<close> and \<open>1080\<close> substituted for the
  placeholders as the code's own test does, is at most 250 characters long, for every
  title (present, missing or \<open>None\<close>; of any length) and for both the video and the audio
  template.
\<close>

theorem build_outtmpl_length:
  assumes "length download_dir \<le> 234"
  shows "length (test_path_of (snd (build_outtmpl download_dir info_title is_audio_only))) \<le> 250"
proof -
  define title0 where "title0 = (case info_title of
                      Absent \<Rightarrow> sanitize_filename (lit ''video'')
                    | Null \<Rightarrow> lit ''video''
                    | Val t \<Rightarrow> sanitize_filename t)"
  define title1 where "title1 = (if length title0 > max_title_length
                    then rstrip (take max_title_length title0) else title0)"
  define outtmpl1 where "outtmpl1 = outtmpl_of download_dir title1 is_audio_only"
  define remaining where "remaining = 250 - int (length download_dir) - 20"
  define title2 where "title2 = (if remaining > 0 then rstrip (take (nat remaining) title1)
                         else lit ''video'')"
  have b: "build_outtmpl download_dir info_title is_audio_only =
      (if length (test_path_of outtmpl1) > 250
       then (title2, outtmpl_of download_dir title2 is_audio_only) else (title1, outtmpl1))"
    by (simp add: build_outtmpl_def Let_def title0_def title1_def outtmpl1_def
        remaining_def title2_def)
  show ?thesis
  proof (cases "length (test_path_of outtmpl1) > 250")
    case False
    with b show ?thesis by simp
  next
    case True
    have "length title2 + length download_dir \<le> 239"
    proof (cases "remaining > 0")
      case True
      then have "length title2 \<le> nat remaining"
        using length_rstrip_take [of "nat remaining" title1] by (simp add: title2_def)
      with True show ?thesis by (simp add: remaining_def)
    next
      case False
      then have "title2 = lit ''video''" by (simp add: title2_def)
      with assms show ?thesis by (simp add: lit_def)
    qed
    with length_test_path_outtmpl [of download_dir title2 is_audio_only] True b
    show ?thesis by simp
  qed
qed

text \<open>
  C4 as stated fails: the bound is claimed for every title whatever the directory. With
  a directory of 235 characters the second pass has a non-positive budget and falls back
  to the title \<open>video\<close>; the path is then 235 + 1 + 5 + 10 = 251 characters long.
\<close>

lemma sanitize_video: "sanitize_filename (lit ''video'') = lit ''video''"
  by (simp add: sanitize_filename_def lit_def is_invalid_def is_space_def strip_def rstrip_def
      rstrip_chars_def max_length_def)

theorem build_outtmpl_too_long:
  "length long_dir = 235 \<and>
   length (test_path_of (snd (build_outtmpl long_dir (Val (lit ''video'')) False))) = 251"
proof -
  have len: "length long_dir = 235" by (simp add: long_dir_def lit_def)
  have nj: "\<not> suffix (lit ''/'') long_dir"
    by (simp add: long_dir_def lit_def suffix_to_prefix)
  have ne: "long_dir \<noteq> []" by (simp add: long_dir_def lit_def)
  have out: "outtmpl_of long_dir (lit ''video'') False =
      (long_dir @ lit ''/video'') @ lit ''_%(height)sp.%(ext)s''"
    using nj ne by (simp add: outtmpl_of_def path_join_def lit_def)
  have pct: "37 \<notin> set (long_dir @ lit ''/video'')"
    by (simp add: long_dir_def lit_def)
  have id: "test_path_of (long_dir @ lit ''/video'') = long_dir @ lit ''/video''"
    unfolding test_path_of_def using pct
    by (simp add: str_replace_absent lit_def)
  have tp: "test_path_of (outtmpl_of long_dir (lit ''video'') False)
      = (long_dir @ lit ''/video'') @ lit ''_1080p.mp4''"
    unfolding out test_path_of_video id ..
  have l1: "length (test_path_of (outtmpl_of long_dir (lit ''video'') False)) = 251"
    unfolding tp using len by (simp add: lit_def)
  have "build_outtmpl long_dir (Val (lit ''video'')) False
      = (lit ''video'', outtmpl_of long_dir (lit ''video'') False)"
    using l1 len by (simp add: build_outtmpl_def sanitize_video max_title_length_def Let_def)
      (simp add: lit_def)
  with l1 len show ?thesis by simp
qed

theorem build_outtmpl_length_witness:
  "length (lit ''/srv/app/downloads'') \<le> 234 \<and>
   length (test_path_of (snd (build_outtmpl (lit ''/srv/app/downloads'')
      (Val (replicate 10000 97)) False))) \<le> 250"
proof -
  have h: "length (lit ''/srv/app/downloads'') \<le> 234" by (simp add: lit_def)
  from build_outtmpl_length [OF h] h show ?thesis by blast
qed

section \<open>Rounding to floats\<close>



lemma round_half_even_error: "\<bar>of_int (round_half_even y) - y\<bar> \<le> 1 / 2"
proof -
  have "of_int \<lfloor>y\<rfloor> \<le> y" "y < of_int \<lfloor>y\<rfloor> + 1"
    using floor_correct [of y] by simp_all
  then show ?thesis
    by (auto simp: round_half_even_def Let_def abs_le_iff)
qed

lemma floor_numeral_div: "\<lfloor>numeral a / numeral b :: rat\<rfloor> = numeral a div numeral b"
  using floor_divide_of_int_eq [of "numeral a" "numeral b", where ?'a = rat] by simp

lemma fl_three_halves: "fl (3 / 2) = 3 / 2"
  by (simp add: fl_def fl_small.simps round_half_even_def floor_numeral_div)

lemma fl_150: "fl 150 = 150"
  by (simp add: fl_def fl_small.simps round_half_even_def floor_numeral_div)


lemma fl_small_step: "0 < x \<Longrightarrow> x < 2 ^ 52 \<Longrightarrow> fl_small x = fl_small (2 * x) / 2"
  by (subst fl_small.simps) simp

lemma fl_small_base:
  "\<not> (0 < x \<and> x < 2 ^ 52) \<Longrightarrow> fl_small x = of_int (round_half_even x)"
  by (subst fl_small.simps) (simp only: if_False)

lemma fl_large_step: "2 ^ 53 \<le> x \<Longrightarrow> fl_large x = fl_large (x / 2) * 2"
  by (subst fl_large.simps) simp

lemma fl_large_base: "\<not> 2 ^ 53 \<le> x \<Longrightarrow> fl_large x = of_int (round_half_even x)"
  by (subst fl_large.simps) (simp only: if_False)



lemma half_le_eps: "2 ^ 52 \<le> x \<Longrightarrow> 1 / 2 \<le> x * eps"
  by (simp add: eps_def)

lemma fl_small_error: "0 < x \<Longrightarrow> x < 2 ^ 53 \<Longrightarrow> \<bar>fl_small x - x\<bar> \<le> x * eps"
proof (induction x rule: fl_small.induct)
  case (1 x)
  show ?case
  proof (cases "0 < x \<and> x < 2 ^ 52")
    case True
    define u where "u = x * eps"
    define w where "w = fl_small (2 * x)"
    have "\<bar>fl_small (2 * x) - 2 * x\<bar> \<le> 2 * x * eps"
      using True by (intro "1.IH" [OF True]) simp_all
    then have "\<bar>w - 2 * x\<bar> \<le> 2 * u" by (simp add: u_def w_def)
    moreover have "fl_small x = w / 2" using True by (simp only: fl_small_step w_def)
    ultimately have "\<bar>fl_small x - x\<bar> \<le> u" by linarith
    then show ?thesis by (simp only: u_def)
  next
    case False
    with "1.prems" have "2 ^ 52 \<le> x" by simp
    from half_le_eps [OF this] round_half_even_error [of x]
    have "\<bar>of_int (round_half_even x) - x\<bar> \<le> x * eps" by linarith
    then show ?thesis by (simp only: fl_small_base [OF False])
  qed
qed

lemma fl_large_error: "2 ^ 52 \<le> x \<Longrightarrow> \<bar>fl_large x - x\<bar> \<le> x * eps"
proof (induction x rule: fl_large.induct)
  case (1 x)
  show ?case
  proof (cases "2 ^ 53 \<le> x")
    case True
    define u where "u = x * eps"
    define w where "w = fl_large (x / 2)"
    have "\<bar>fl_large (x / 2) - x / 2\<bar> \<le> x / 2 * eps"
      using True by (intro "1.IH" [OF True]) simp
    then have "\<bar>w - x / 2\<bar> \<le> u / 2" by (simp add: u_def w_def)
    moreover have "fl_large x = w * 2" using True by (simp only: fl_large_step w_def)
    ultimately have "\<bar>fl_large x - x\<bar> \<le> u" by linarith
    then show ?thesis by (simp only: u_def)
  next
    case False
    from half_le_eps [OF "1.prems"] round_half_even_error [of x]
    have "\<bar>of_int (round_half_even x) - x\<bar> \<le> x * eps" by linarith
    then show ?thesis by (simp only: fl_large_base [OF False])
  qed
qed

lemma fl_pos: "0 < x \<Longrightarrow> fl x = (if x < 2 ^ 52 then fl_small x else fl_large x)"
  by (simp add: fl_def)

lemma fl_neg: "x < 0 \<Longrightarrow> fl x = - fl (- x)"
  by (simp add: fl_def)

lemma fl_pos_error:
  assumes "0 < x"
  shows "\<bar>fl x - x\<bar> \<le> x * eps"
proof (cases "x < 2 ^ 52")
  case True
  then have "x < 2 ^ 53" by simp
  from fl_small_error [OF assms this] True show ?thesis by (simp only: fl_pos [OF assms] if_True)
next
  case False
  then have "2 ^ 52 \<le> x" by simp
  from fl_large_error [OF this] False show ?thesis by (simp only: fl_pos [OF assms] if_False)
qed

lemma fl_error: "\<bar>fl x - x\<bar> \<le> \<bar>x\<bar> * eps"
proof -
  consider "x = 0" | "x < 0" | "0 < x" by linarith
  then show ?thesis
  proof cases
    case 1
    then show ?thesis by (simp add: fl_def)
  next
    case 2
    then have p: "0 < - x" by simp
    define v where "v = fl (- x)"
    define u where "u = (- x) * eps"
    have "\<bar>v - (- x)\<bar> \<le> u" using fl_pos_error [OF p] by (simp only: v_def u_def)
    moreover have "fl x = - v" using 2 by (simp only: fl_neg v_def)
    ultimately have "\<bar>fl x - x\<bar> \<le> u" by linarith
    moreover have "\<bar>x\<bar> = - x" using 2 by simp
    ultimately show ?thesis by (simp only: u_def)
  next
    case 3
    then have "\<bar>x\<bar> = x" by simp
    with fl_pos_error [OF 3] show ?thesis by (simp only:)
  qed
qed



lemma fl_product_error: "\<bar>fl (fl q * 100) - q * 100\<bar> \<le> \<bar>q * 100\<bar> / 2 ^ 51"
proof -
  define a where "a = fl q"
  define P where "P = \<bar>q\<bar> * eps"
  have c: "0 \<le> eps" "eps \<le> 1" by (simp_all add: eps_def)
  have P0: "0 \<le> P" unfolding P_def using c(1) by simp
  have PQ: "P \<le> \<bar>q\<bar>" unfolding P_def using c by (simp add: mult_left_le)
  have e1: "\<bar>a - q\<bar> \<le> P" unfolding a_def P_def by (rule fl_error)
  then have aq: "\<bar>a\<bar> \<le> 2 * \<bar>q\<bar>" using PQ by linarith
  have "\<bar>fl (a * 100) - a * 100\<bar> \<le> \<bar>a * 100\<bar> * eps" by (rule fl_error)
  also have "\<bar>a * 100\<bar> * eps = \<bar>a\<bar> * (100 * eps)" by (simp add: abs_mult)
  also have "\<dots> \<le> (2 * \<bar>q\<bar>) * (100 * eps)"
    using aq c(1) by (intro mult_right_mono) simp_all
  also have "\<dots> = 200 * P" by (simp add: P_def)
  finally have e2: "\<bar>fl (a * 100) - a * 100\<bar> \<le> 200 * P" .
  have "fl (a * 100) - q * 100 = (fl (a * 100) - a * 100) + 100 * (a - q)"
    by (simp add: algebra_simps)
  then have "\<bar>fl (a * 100) - q * 100\<bar> \<le> \<bar>fl (a * 100) - a * 100\<bar> + \<bar>100 * (a - q)\<bar>"
    by (simp only: abs_triangle_ineq)
  moreover have "\<bar>100 * (a - q)\<bar> = 100 * \<bar>a - q\<bar>" by (simp only: abs_mult abs_numeral)
  ultimately have "\<bar>fl (a * 100) - q * 100\<bar> \<le> 400 * P" using e1 e2 P0 by linarith
  also have "400 * P = \<bar>q * 100\<bar> / 2 ^ 51" by (simp add: P_def eps_def abs_mult)
  finally show ?thesis unfolding a_def .
qed

lemma round1_one_decimal: "of_int \<lfloor>round1 x * 10\<rfloor> = round1 x * 10"
  by (simp add: round1_def)

lemma round1_nearest: "\<bar>round1 x - x\<bar> \<le> 1 / 20"
proof -
  define k where "k = (of_int (round_half_even (x * 10)) :: rat)"
  have "\<bar>k - x * 10\<bar> \<le> 1 / 2" unfolding k_def by (rule round_half_even_error)
  moreover have "round1 x = k / 10" by (simp add: round1_def k_def)
  ultimately show ?thesis by linarith
qed

lemma fl_23_80: "fl (23 / 80) = 2589569785738035 / 9007199254740992"
  by (simp add: fl_def fl_small.simps round_half_even_def floor_numeral_div)

lemma fl_23_80_times_100: "fl (2589569785738035 / 9007199254740992 * 100) = 8092405580431359 / 281474976710656"
  by (simp add: fl_def fl_small.simps round_half_even_def floor_numeral_div)

lemma round1_23_80: "round1 (8092405580431359 / 281474976710656) = 287 / 10"
  by (simp add: round1_def round_half_even_def floor_numeral_div)

lemma fl_1_2000: "fl (1 / 2000) = 1152921504606847 / 2305843009213693952"
  by (simp add: fl_def fl_small.simps round_half_even_def floor_numeral_div)

lemma fl_1_2000_times_100: "fl (1152921504606847 / 2305843009213693952 * 100) = 3602879701896397 / 72057594037927936"
  by (simp add: fl_def fl_small.simps round_half_even_def floor_numeral_div)

lemma round1_1_2000: "round1 (3602879701896397 / 72057594037927936) = 1 / 10"
  by (simp add: round1_def round_half_even_def floor_numeral_div)

lemma percent_23_80: "round1 (fl (fl (23 / 80) * 100)) = 287 / 10"
  unfolding fl_23_80 fl_23_80_times_100 by (rule round1_23_80)

lemma percent_1_2000: "round1 (fl (fl (1 / 2000) * 100)) = 1 / 10"
  unfolding fl_1_2000 fl_1_2000_times_100 by (rule round1_1_2000)

lemma percent_quarter: "round1 (fl (fl (1 / 4) * 100)) = 25"
  by (simp add: fl_def fl_small.simps round_half_even_def round1_def floor_numeral_div)

section \<open>Formatting sizes\<close>

lemma format_size_1536: "format_size 1536 = lit ''1.5 KB''"
  by (simp add: format_size_def size_loop.simps units_def fmt_1f_def round_half_even_def
      str_nat.simps lit_def fl_def fl_small.simps floor_numeral_div)

lemma format_size_GB: "format_size 1073741824 = lit ''1.0 GB''"
  by (simp add: format_size_def size_loop.simps units_def fmt_1f_def round_half_even_def
      str_nat.simps lit_def fl_def fl_small.simps floor_numeral_div)

lemma format_size_200: "format_size 200 = lit ''200.0 B''"
  by (simp add: format_size_def size_loop.simps units_def fmt_1f_def round_half_even_def
      str_nat.simps lit_def fl_def fl_small.simps floor_numeral_div)

lemma str_int_1080: "str_int 1080 = lit ''1080''"
  by (simp add: str_int_def str_nat.simps lit_def)

section \<open>The ranking of formats\<close>

lemma map_of_dict_set: "map_of (dict_set k v m) = (map_of m)(k \<mapsto> v)"
  by (induction m) (auto simp: fun_eq_iff)

lemma map_fst_dict_set:
  "set (map fst (dict_set k v m)) = insert k (set (map fst m))"
  using map_of_dict_set [of k v m]
  by (simp add: dom_map_of_conv_image_fst [symmetric])

lemma distinct_dict_set: "distinct (map fst m) \<Longrightarrow> distinct (map fst (dict_set k v m))"
proof (induction m)
  case Nil
  then show ?case by simp
next
  case (Cons a m)
  obtain k' v' where a: "a = (k', v')" by (cases a)
  show ?case
  proof (cases "k = k'")
    case True
    with Cons a show ?thesis by simp
  next
    case False
    have "k' \<notin> set (map fst (dict_set k v m))"
      using Cons.prems a False unfolding map_fst_dict_set by simp
    with Cons a False show ?thesis by simp
  qed
qed

lemma add_format_skipped: "\<forall>h. \<not> keeps f h \<Longrightarrow> add_format f m = Inr m"
  by (auto simp: add_format_def keeps_def split: field.splits)

lemma keeps_unique: "keeps f h \<Longrightarrow> keeps f h' \<Longrightarrow> h' = h"
  by (simp add: keeps_def)

lemma dominated_self: "dominated f (entry_of f h)"
  by (simp add: dominated_def entry_of_def size_le_def)

lemma add_format_kept:
  assumes "keeps f h" and "add_format f m = Inr m'"
  shows "(m' = m \<and> (\<exists>ex. map_of m h = Some ex \<and> dominated f ex))
       \<or> (m' = dict_set h (entry_of f h) m
          \<and> (\<forall>ex g. map_of m h = Some ex \<longrightarrow> dominated g ex \<longrightarrow> dominated g (entry_of f h)))"
proof (cases "map_of m h")
  case None
  with assms show ?thesis by (simp add: add_format_def keeps_def)
next
  case (Some ex)
  show ?thesis
  proof (cases "vbr_of f > e_vbr ex")
    case True
    then have "dominated g ex \<longrightarrow> dominated g (entry_of f h)" for g
      by (auto simp: dominated_def entry_of_def)
    with assms Some True show ?thesis by (simp add: add_format_def keeps_def)
  next
    case False
    from assms Some False obtain a b where ab: "filesize_of f = Some a" "e_filesize ex = Some b"
      by (auto simp: add_format_def keeps_def split: option.splits)
    show ?thesis
    proof (cases "a > b \<and> vbr_of f \<ge> e_vbr ex")
      case True
      then have "dominated g ex \<longrightarrow> dominated g (entry_of f h)" for g
        using False ab by (auto simp: dominated_def entry_of_def size_le_def split: option.splits)
      with assms Some False ab True show ?thesis by (simp add: add_format_def keeps_def)
    next
      case nr: False
      have "dominated f ex"
        using False nr ab by (auto simp: dominated_def size_le_def)
      with assms Some False ab nr show ?thesis by (auto simp: add_format_def keeps_def)
    qed
  qed
qed

lemma group_inv_step:
  assumes "add_format f m = Inr m'" and "group_inv seen m"
  shows "group_inv (seen @ [f]) m'"
proof (cases "\<exists>h. keeps f h")
  case False
  then have eq: "m' = m" using assms(1) add_format_skipped [of f m] by simp
  show ?thesis
    unfolding group_inv_def
  proof
    fix h
    from False eq assms(2) [unfolded group_inv_def, rule_format, of h]
    show "case map_of m' h of
            None \<Rightarrow> \<forall>f\<in>set (seen @ [f]). \<not> keeps f h
          | Some r \<Rightarrow> (\<exists>f\<in>set (seen @ [f]). keeps f h \<and> r = entry_of f h)
                     \<and> (\<forall>f\<in>set (seen @ [f]). keeps f h \<longrightarrow> dominated f r)"
      by (auto split: option.splits)
  qed
next
  case True
  then obtain h0 where k: "keeps f h0" ..
  have other: "\<not> keeps f h" if "h \<noteq> h0" for h
    using keeps_unique [OF k] that by blast
  from add_format_kept [OF k assms(1)] show ?thesis
  proof
    assume a: "m' = m \<and> (\<exists>ex. map_of m h0 = Some ex \<and> dominated f ex)"
    then obtain ex where ex: "map_of m h0 = Some ex" "dominated f ex" by blast
    show ?thesis
      unfolding group_inv_def
    proof
      fix h
      show "case map_of m' h of
              None \<Rightarrow> \<forall>f\<in>set (seen @ [f]). \<not> keeps f h
            | Some r \<Rightarrow> (\<exists>f\<in>set (seen @ [f]). keeps f h \<and> r = entry_of f h)
                       \<and> (\<forall>f\<in>set (seen @ [f]). keeps f h \<longrightarrow> dominated f r)"
      proof (cases "h = h0")
        case True
        with a ex assms(2) [unfolded group_inv_def, rule_format, of h0] show ?thesis
          by auto
      next
        case False
        with a other [OF False] assms(2) [unfolded group_inv_def, rule_format, of h]
        show ?thesis by (auto split: option.splits)
      qed
    qed
  next
    assume b: "m' = dict_set h0 (entry_of f h0) m
          \<and> (\<forall>ex g. map_of m h0 = Some ex \<longrightarrow> dominated g ex \<longrightarrow> dominated g (entry_of f h0))"
    show ?thesis
      unfolding group_inv_def
    proof
      fix h
      show "case map_of m' h of
              None \<Rightarrow> \<forall>f\<in>set (seen @ [f]). \<not> keeps f h
            | Some r \<Rightarrow> (\<exists>f\<in>set (seen @ [f]). keeps f h \<and> r = entry_of f h)
                       \<and> (\<forall>f\<in>set (seen @ [f]). keeps f h \<longrightarrow> dominated f r)"
      proof (cases "h = h0")
        case True
        have m': "map_of m' h0 = Some (entry_of f h0)"
          using b by (simp add: map_of_dict_set)
        have "dominated g (entry_of f h0)" if "g \<in> set seen" "keeps g h0" for g
        proof (cases "map_of m h0")
          case None
          with assms(2) [unfolded group_inv_def, rule_format, of h0] that show ?thesis by auto
        next
          case (Some ex)
          with assms(2) [unfolded group_inv_def, rule_format, of h0] that
          have "dominated g ex" by auto
          with b Some show ?thesis by blast
        qed
        with True m' k dominated_self [of f h0] show ?thesis by auto
      next
        case False
        have "map_of m' h = map_of m h" using b False by (simp add: map_of_dict_set)
        with other [OF False] assms(2) [unfolded group_inv_def, rule_format, of h]
        show ?thesis by (auto split: option.splits)
      qed
    qed
  qed
qed

lemma group_inv_group_formats:
  "group_formats ds m = Inr m' \<Longrightarrow> group_inv seen m \<Longrightarrow> group_inv (seen @ ds) m'"
proof (induction ds arbitrary: m seen)
  case Nil
  then show ?case by simp
next
  case (Cons f ds)
  from Cons.prems(1) obtain m1 where m1: "add_format f m = Inr m1" "group_formats ds m1 = Inr m'"
    by (auto split: sum.splits)
  from group_inv_step [OF m1(1) Cons.prems(2)] have "group_inv (seen @ [f]) m1" .
  from Cons.IH [OF m1(2) this] show ?case by simp
qed

lemma group_inv_empty: "group_inv [] []"
  by (simp add: group_inv_def)


lemma set_dict_set: "set (dict_set k v m) \<subseteq> insert (k, v) (set m)"
  by (induction m) (auto split: if_splits)

lemma add_format_result:
  "add_format f m = Inr m' \<Longrightarrow> m' = m \<or> (\<exists>h. m' = dict_set h (entry_of f h) m)"
  by (auto simp: add_format_def split: field.splits option.splits if_splits)

lemma keyed_add_format:
  assumes "add_format f m = Inr m'" and "keyed m"
  shows "keyed m'"
proof -
  from add_format_result [OF assms(1)] show ?thesis
  proof
    assume "m' = m"
    with assms(2) show ?thesis by simp
  next
    assume "\<exists>h. m' = dict_set h (entry_of f h) m"
    then obtain h where h: "m' = dict_set h (entry_of f h) m" ..
    have "e_height (entry_of f h) = h" by (simp add: entry_of_def)
    with set_dict_set [of h "entry_of f h" m] assms(2) h distinct_dict_set [of m h "entry_of f h"]
    show ?thesis by (auto simp: keyed_def)
  qed
qed

lemma keyed_group_formats:
  "group_formats ds m = Inr m' \<Longrightarrow> keyed m \<Longrightarrow> keyed m'"
proof (induction ds arbitrary: m)
  case Nil
  then show ?case by simp
next
  case (Cons f ds)
  from Cons.prems(1) obtain m1 where m1: "add_format f m = Inr m1" "group_formats ds m1 = Inr m'"
    by (auto split: sum.splits)
  from Cons.IH [OF m1(2) keyed_add_format [OF m1(1) Cons.prems(2)]] show ?case .
qed

lemma heights_select_formats:
  "map t_height (select_formats targets formats)
   = filter (\<lambda>h. h \<in> e_height ` set formats) targets"
proof (induction targets)
  case Nil
  then show ?case by simp
next
  case (Cons target targets)
  show ?case
  proof (cases "find (\<lambda>f. e_height f = target) formats")
    case None
    then have "target \<notin> e_height ` set formats" by (auto simp: find_None_iff)
    with None Cons show ?thesis by simp
  next
    case (Some f)
    then have "f \<in> set formats" "e_height f = target"
      by (auto simp: find_Some_iff)
    then have "target \<in> e_height ` set formats" by auto
    with Some Cons \<open>e_height f = target\<close> show ?thesis by (simp add: tier_of_def)
  qed
qed

lemma select_formats_from:
  "t \<in> set (select_formats targets formats) \<Longrightarrow> \<exists>f\<in>set formats. t = tier_of f"
proof (induction targets)
  case Nil
  then show ?case by simp
next
  case (Cons target targets)
  show ?case
  proof (cases "find (\<lambda>f. e_height f = target) formats")
    case None
    with Cons show ?thesis by simp
  next
    case (Some f)
    then have "f \<in> set formats" by (auto simp: find_Some_iff)
    with Some Cons show ?thesis by auto
  qed
qed

lemma set_sort_by_height_desc: "set (sort_by_height_desc formats) = set formats"
  by (simp add: sort_by_height_desc_def)

lemma sorted_target_heights: "sorted_wrt (>) target_heights"
  by (simp add: target_heights_def)

lemma sorted_wrt_gt_filter: "sorted_wrt (>) (xs :: int list) \<Longrightarrow> sorted_wrt (>) (filter p xs)"
  by (induction xs) auto

lemma sorted_wrt_gt_distinct: "sorted_wrt (>) (xs :: int list) \<Longrightarrow> distinct xs"
  by (induction xs) auto

lemma rank_Inr:
  "rank ds = Inr ts \<Longrightarrow>
   \<exists>m. group_formats ds [] = Inr m
     \<and> ts = select_formats target_heights (sort_by_height_desc (map snd m)) @ [audio_tier]"
  by (auto simp: rank_def split: sum.splits)

text \<open>
  C1. Whenever \<open>rank\<close> returns a list, the list ends with the audio-only option, the
  entries before it are strictly decreasing in height (hence no two share a height), there
  are at most 7 of them and at most 8 entries in all, and none of them is marked
  audio-only. On the empty list of descriptors the result is the audio-only option alone.
\<close>

theorem rank_sorted_bounded:
  "rank [] = Inr [audio_tier]
   \<and> (rank ds = Inr ts \<longrightarrow>
        ts \<noteq> [] \<and> last ts = audio_tier
        \<and> sorted_wrt (>) (map t_height (butlast ts))
        \<and> distinct (map t_height (butlast ts))
        \<and> length (butlast ts) \<le> 7 \<and> length ts \<le> 8
        \<and> (\<forall>t\<in>set (butlast ts). \<not> t_audio_only t))"
proof (intro conjI impI)
  show "rank [] = Inr [audio_tier]"
    by (simp add: rank_def target_heights_def sort_by_height_desc_def)
next
  assume "rank ds = Inr ts"
  from rank_Inr [OF this] obtain m where m: "group_formats ds [] = Inr m"
    and ts: "ts = select_formats target_heights (sort_by_height_desc (map snd m)) @ [audio_tier]"
    by blast
  let ?vs = "select_formats target_heights (sort_by_height_desc (map snd m))"
  have hs: "map t_height ?vs
      = filter (\<lambda>h. h \<in> e_height ` set (sort_by_height_desc (map snd m))) target_heights"
    by (rule heights_select_formats)
  have srt: "sorted_wrt (>) (map t_height ?vs)"
    unfolding hs by (rule sorted_wrt_gt_filter [OF sorted_target_heights])
  have "length (map t_height ?vs) \<le> length target_heights"
    unfolding hs by (rule length_filter_le)
  then have len: "length ?vs \<le> 7" by (simp add: target_heights_def)
  have na: "\<not> t_audio_only t" if "t \<in> set ?vs" for t
    using select_formats_from [OF that] by (auto simp: tier_of_def)
  show "ts \<noteq> []" "last ts = audio_tier" using ts by simp_all
  show "sorted_wrt (>) (map t_height (butlast ts))" using ts srt by simp
  show "distinct (map t_height (butlast ts))"
    using ts sorted_wrt_gt_distinct [OF srt] by simp
  show "length (butlast ts) \<le> 7" "length ts \<le> 8" using ts len by simp_all
  show "\<forall>t\<in>set (butlast ts). \<not> t_audio_only t" using ts na by simp
qed

lemma rank_example: "rank example_formats = Inr example_tiers"
  by (simp add: rank_def example_formats_def example_tiers_def mk_format_def add_format_def
      entry_of_def vbr_of_def filesize_of_def get_def lit_def target_heights_def
      sort_by_height_desc_def tier_of_def)

theorem rank_sorted_bounded_witness:
  "rank example_formats = Inr example_tiers
   \<and> last example_tiers = audio_tier
   \<and> sorted_wrt (>) (map t_height (butlast example_tiers))
   \<and> distinct (map t_height (butlast example_tiers))
   \<and> length example_tiers \<le> 8"
  using rank_sorted_bounded [of example_formats example_tiers] rank_example by blast

lemma vbr_of_spec: "vbr_of f = spec_bitrate f"
  by (simp add: vbr_of_def spec_bitrate_def present_def split: field.splits)

lemma filesize_of_spec: "filesize_of f = spec_size f"
  by (simp add: filesize_of_def spec_size_def present_def split: field.splits)

lemma example_tiers_explicit: "example_tiers = [video_1080_b, video_720_c, video_360_d, audio_tier]"
  by (simp add: example_tiers_def video_1080_b_def video_720_c_def video_360_d_def tier_of_def
      entry_of_def mk_format_def filesize_of_def get_def str_int_def str_nat.simps lit_def)

lemma group_tie_formats:
  "group_formats tie_formats [] = Inr [(720, entry_of fmt_z 720)]"
  by (simp add: tie_formats_def fmt_x_def fmt_y_def fmt_z_def fmt_w_def fmt_v_def fmt_audio_def
      add_format_def entry_of_def vbr_of_def filesize_of_def get_def lit_def)

lemma rank_tie_formats: "rank tie_formats = Inr [video_720_z, audio_tier]"
  by (simp add: rank_def group_tie_formats target_heights_def sort_by_height_desc_def
      tier_of_def entry_of_def video_720_z_def fmt_z_def filesize_of_def vbr_of_def get_def
      format_size_200 str_int_def str_nat.simps)
    (simp add: lit_def)


text \<open>
  C2. The representative of a height is made from a descriptor of that height that
  survived the filter; its bit rate is that descriptor's video bit rate, or its overall bit
  rate when the video bit rate is absent, or 0; and no surviving descriptor of that height
  has a higher bit rate, or the same bit rate and a larger file size. Every height that
  survives the filter has a representative when \<open>rank\<close> returns, and every video option
  returned is the representative of its height. In the scenario of the specification the
  options are 1080 (the format \<open>b\<close> of bit rate 8000), 720, 360 and the audio-only
  option; in the second scenario the overall bit rate decides between \<open>x\<close> and \<open>y\<close>
  and the size decides among the formats of bit rate 8000.
\<close>

theorem rank_representative:
  "(representative ds h = Some r \<longrightarrow>
      (\<exists>f\<in>set ds. keeps f h \<and> r = entry_of f h
         \<and> e_format_id r = get (f_format_id f) \<and> e_height r = h
         \<and> e_vbr r = spec_bitrate f \<and> e_filesize r = spec_size f)
      \<and> (\<forall>g\<in>set ds. keeps g h \<longrightarrow>
            spec_bitrate g \<le> e_vbr r
            \<and> (spec_bitrate g = e_vbr r \<longrightarrow> size_le (spec_size g) (e_filesize r))))
   \<and> (rank ds = Inr ts \<longrightarrow> (\<exists>f\<in>set ds. keeps f h) \<longrightarrow> representative ds h \<noteq> None)
   \<and> (rank ds = Inr ts \<longrightarrow> t \<in> set (butlast ts) \<longrightarrow>
        (\<exists>r'. representative ds (t_height t) = Some r' \<and> t = tier_of r'
           \<and> t_format_id t = e_format_id r'))
   \<and> rank example_formats = Inr [video_1080_b, video_720_c, video_360_d, audio_tier]
   \<and> rank tie_formats = Inr [video_720_z, audio_tier]"
proof (intro conjI impI)
  assume "representative ds h = Some r"
  then obtain m where m: "group_formats ds [] = Inr m" "map_of m h = Some r"
    by (auto simp: representative_def split: sum.splits)
  from group_inv_group_formats [OF m(1) group_inv_empty] have "group_inv ds m" by simp
  from this [unfolded group_inv_def, rule_format, of h] m(2)
  have ex: "\<exists>f\<in>set ds. keeps f h \<and> r = entry_of f h"
    and dom: "\<forall>f\<in>set ds. keeps f h \<longrightarrow> dominated f r" by auto
  from ex obtain f where f: "f \<in> set ds" "keeps f h" "r = entry_of f h" by blast
  have "e_format_id r = get (f_format_id f)" "e_height r = h"
    "e_vbr r = spec_bitrate f" "e_filesize r = spec_size f"
    using f(3) by (simp_all add: entry_of_def vbr_of_spec filesize_of_spec)
  with f show "\<exists>f\<in>set ds. keeps f h \<and> r = entry_of f h
         \<and> e_format_id r = get (f_format_id f) \<and> e_height r = h
         \<and> e_vbr r = spec_bitrate f \<and> e_filesize r = spec_size f" by blast
  show "\<forall>g\<in>set ds. keeps g h \<longrightarrow>
            spec_bitrate g \<le> e_vbr r
            \<and> (spec_bitrate g = e_vbr r \<longrightarrow> size_le (spec_size g) (e_filesize r))"
    using dom by (simp add: dominated_def vbr_of_spec filesize_of_spec)
next
  assume r: "rank ds = Inr ts" and k: "\<exists>f\<in>set ds. keeps f h"
  from rank_Inr [OF r] obtain m where m: "group_formats ds [] = Inr m" by blast
  from group_inv_group_formats [OF m group_inv_empty] have "group_inv ds m" by simp
  from this [unfolded group_inv_def, rule_format, of h] k
  have "map_of m h \<noteq> None" by (auto split: option.splits)
  with m show "representative ds h \<noteq> None" by (simp add: representative_def)
next
  assume r: "rank ds = Inr ts" and t: "t \<in> set (butlast ts)"
  from rank_Inr [OF r] obtain m where m: "group_formats ds [] = Inr m"
    and ts: "ts = select_formats target_heights (sort_by_height_desc (map snd m)) @ [audio_tier]"
    by blast
  from t ts have "t \<in> set (select_formats target_heights (sort_by_height_desc (map snd m)))"
    by simp
  from select_formats_from [OF this] obtain r' where
    r': "r' \<in> snd ` set m" "t = tier_of r'"
    by (auto simp: set_sort_by_height_desc)
  then obtain h' where h': "(h', r') \<in> set m" by auto
  have "keyed []" by (simp add: keyed_def)
  from keyed_group_formats [OF m this] have km: "keyed m" .
  with h' have "e_height r' = h'" "map_of m h' = Some r'"
    by (auto simp: keyed_def)
  with r'(2) m have "representative ds (t_height t) = Some r'"
    by (simp add: representative_def tier_of_def)
  moreover have "t_format_id t = e_format_id r'" using r'(2) by (simp add: tier_of_def)
  ultimately show "\<exists>r'. representative ds (t_height t) = Some r' \<and> t = tier_of r'
           \<and> t_format_id t = e_format_id r'" using r'(2) by blast
next
  show "rank example_formats = Inr [video_1080_b, video_720_c, video_360_d, audio_tier]"
    using rank_example by (simp only: example_tiers_explicit)
next
  show "rank tie_formats = Inr [video_720_z, audio_tier]" by (rule rank_tie_formats)
qed

lemma representative_tie: "representative tie_formats 720 = Some (entry_of fmt_z 720)"
  by (simp add: representative_def group_tie_formats)

theorem rank_representative_witness:
  "representative tie_formats 720 = Some (entry_of fmt_z 720)
   \<and> e_format_id (entry_of fmt_z 720) = Some (lit ''z'')
   \<and> e_vbr (entry_of fmt_z 720) = 8000 \<and> e_filesize (entry_of fmt_z 720) = Some 200
   \<and> fmt_x \<in> set tie_formats \<and> keeps fmt_x 720 \<and> spec_bitrate fmt_x = 5000
   \<and> fmt_y \<in> set tie_formats \<and> keeps fmt_y 720 \<and> spec_bitrate fmt_y = 8000
   \<and> spec_size fmt_y = Some 100
   \<and> spec_bitrate fmt_y \<le> e_vbr (entry_of fmt_z 720)
   \<and> size_le (spec_size fmt_y) (e_filesize (entry_of fmt_z 720))
   \<and> fmt_w \<in> set tie_formats \<and> keeps fmt_w 720 \<and> spec_bitrate fmt_w = 8000
   \<and> spec_size fmt_w = Some 150
   \<and> size_le (spec_size fmt_w) (e_filesize (entry_of fmt_z 720))
   \<and> rank tie_formats = Inr [video_720_z, audio_tier]"
proof -
  note th = rank_representative [of tie_formats 720 "entry_of fmt_z 720"
      "[video_720_z, audio_tier]" video_720_z]
  have mem: "fmt_x \<in> set tie_formats" "fmt_y \<in> set tie_formats" "fmt_w \<in> set tie_formats"
    by (simp_all add: tie_formats_def)
  have kp: "keeps fmt_x 720" "keeps fmt_y 720" "keeps fmt_w 720"
    by (simp_all add: keeps_def fmt_x_def fmt_y_def fmt_w_def lit_def)
  have vals: "spec_bitrate fmt_x = 5000" "spec_bitrate fmt_y = 8000" "spec_bitrate fmt_w = 8000"
    "spec_size fmt_y = Some 100" "spec_size fmt_w = Some 150"
    by (simp_all add: spec_bitrate_def spec_size_def present_def fmt_x_def fmt_y_def fmt_w_def)
  have ez: "e_format_id (entry_of fmt_z 720) = Some (lit ''z'')"
    "e_vbr (entry_of fmt_z 720) = 8000" "e_filesize (entry_of fmt_z 720) = Some 200"
    by (simp_all add: entry_of_def fmt_z_def get_def vbr_of_def filesize_of_def)
  from th representative_tie
  have dom: "\<forall>g\<in>set tie_formats. keeps g 720 \<longrightarrow>
            spec_bitrate g \<le> e_vbr (entry_of fmt_z 720)
            \<and> (spec_bitrate g = e_vbr (entry_of fmt_z 720) \<longrightarrow>
                 size_le (spec_size g) (e_filesize (entry_of fmt_z 720)))"
    and rk: "rank tie_formats = Inr [video_720_z, audio_tier]" by blast+
  from dom mem(2) kp(2) vals(2) ez(2)
  have y: "spec_bitrate fmt_y \<le> e_vbr (entry_of fmt_z 720)"
    "size_le (spec_size fmt_y) (e_filesize (entry_of fmt_z 720))" by auto
  from dom mem(3) kp(3) vals(3) ez(2)
  have w: "size_le (spec_size fmt_w) (e_filesize (entry_of fmt_z 720))" by auto
  from representative_tie ez mem kp vals y w rk show ?thesis by (intro conjI)
qed

section \<open>The stored percentage\<close>








text \<open>
  C5 as stated fails: the percentage is not clamped. An event that reports 150 bytes
  downloaded of an estimated total of 100 stores 150 (the quotient 1.5 and the product
  150 are floats, so nothing is rounded on the way).
\<close>

lemma hook_overshoot:
  "progress_hook overshoot Map.empty
   = (None, [lit ''abc'' \<mapsto> \<lparr> j_status = lit ''downloading'', j_percent = 150,
                               j_speed = Val 1000, j_eta = Val 0 \<rparr>])"
  by (simp add: progress_hook_def overshoot_def total_of_def video_id_of_def downloading_job_def
      downloaded_of_def get_default_def round1_def round_half_even_def fl_three_halves fl_150)




section \<open>Progress events\<close>

lemma hook_downloading_update:
  assumes "d_status d = lit ''downloading''" and "total_of d = Some tot" and "0 < tot"
  shows "progress_hook d st =
     (None, st(video_id_of d \<mapsto>
        \<lparr> j_status = lit ''downloading'',
          j_percent = round1 (fl (fl (downloaded_of d / tot) * 100)),
          j_speed = (case d_speed d of Absent \<Rightarrow> Val 0 | Null \<Rightarrow> Null | Val v \<Rightarrow> Val v),
          j_eta = (case d_eta d of Absent \<Rightarrow> Val 0 | Null \<Rightarrow> Null | Val v \<Rightarrow> Val v) \<rparr>))"
  using assms
  by (simp add: progress_hook_def downloading_job_def get_default_def split: field.splits)

lemma percent_close:
  "\<bar>round1 (fl (fl q * 100)) - q * 100\<bar> \<le> 1 / 20 + \<bar>q * 100\<bar> / 2 ^ 51"
proof -
  define y where "y = fl (fl q * 100)"
  have "\<bar>round1 y - y\<bar> \<le> 1 / 20" by (rule round1_nearest)
  moreover have "\<bar>y - q * 100\<bar> \<le> \<bar>q * 100\<bar> / 2 ^ 51"
    unfolding y_def by (rule fl_product_error)
  ultimately have "\<bar>round1 y - q * 100\<bar> \<le> 1 / 20 + \<bar>q * 100\<bar> / 2 ^ 51" by linarith
  then show ?thesis by (simp only: y_def)
qed

text \<open>
  C6. For an event with status \<open>downloading\<close>: when the total is a number greater than
  zero, the entry of the event's id becomes the record with status \<open>downloading\<close>, the
  event's speed and eta (0 for a missing key), and a percentage that is the float product
  \<open>(downloaded / total) * 100\<close> rounded to one decimal: it has one decimal digit, it is
  within 0.05 of that product, the product is within the relative error \<open>2^-51\<close> of the
  exact \<open>downloaded / total * 100\<close>, and so the percentage is within
  \<open>0.05 + exact / 2^51\<close> of the exact value. Nothing else changes. When the total is
  zero, negative or missing the cache is returned unchanged; when the total is \<open>None\<close>
  the comparison raises \<open>TypeError\<close> and the cache is unchanged as well.
\<close>

theorem progress_hook_downloading:
  assumes "d_status d = lit ''downloading''"
  shows "(case total_of d of
            Some tot \<Rightarrow>
              if tot > 0
              then progress_hook d st = (None, st(video_id_of d \<mapsto>
                     \<lparr> j_status = lit ''downloading'',
                       j_percent = round1 (fl (fl (downloaded_of d / tot) * 100)),
                       j_speed = (case d_speed d of Absent \<Rightarrow> Val 0 | Null \<Rightarrow> Null
                                  | Val v \<Rightarrow> Val v),
                       j_eta = (case d_eta d of Absent \<Rightarrow> Val 0 | Null \<Rightarrow> Null
                                | Val v \<Rightarrow> Val v) \<rparr>))
                \<and> of_int \<lfloor>round1 (fl (fl (downloaded_of d / tot) * 100)) * 10\<rfloor>
                    = round1 (fl (fl (downloaded_of d / tot) * 100)) * 10
                \<and> \<bar>round1 (fl (fl (downloaded_of d / tot) * 100))
                     - fl (fl (downloaded_of d / tot) * 100)\<bar> \<le> 1 / 20
                \<and> \<bar>fl (fl (downloaded_of d / tot) * 100) - downloaded_of d / tot * 100\<bar>
                    \<le> \<bar>downloaded_of d / tot * 100\<bar> / 2 ^ 51
                \<and> \<bar>round1 (fl (fl (downloaded_of d / tot) * 100)) - downloaded_of d / tot * 100\<bar>
                    \<le> 1 / 20 + \<bar>downloaded_of d / tot * 100\<bar> / 2 ^ 51
              else progress_hook d st = (None, st)
          | None \<Rightarrow> progress_hook d st = (Some TypeError, st))"
proof (cases "total_of d")
  case None
  with assms show ?thesis by (simp add: progress_hook_def)
next
  case (Some tot)
  show ?thesis
  proof (cases "tot > 0")
    case False
    with assms Some show ?thesis by (simp add: progress_hook_def)
  next
    case True
    note upd = hook_downloading_update [OF assms Some True, of st]
    note dec = round1_one_decimal [of "fl (fl (downloaded_of d / tot) * 100)"]
    note near = round1_nearest [of "fl (fl (downloaded_of d / tot) * 100)"]
    note err = fl_product_error [of "downloaded_of d / tot"]
    note close = percent_close [of "downloaded_of d / tot"]
    from upd dec near err close Some True show ?thesis
      by (simp only: option.case if_True simp_thms)
  qed
qed

lemma hook_tie:
  "progress_hook tie Map.empty
   = (None, [lit ''abc'' \<mapsto> \<lparr> j_status = lit ''downloading'', j_percent = 287 / 10,
                               j_speed = Val 0, j_eta = Null \<rparr>])"
proof -
  have s: "d_status tie = lit ''downloading''" by (simp add: tie_def)
  have t: "total_of tie = Some 80" by (simp add: tie_def total_of_def)
  have d: "downloaded_of tie = 23" by (simp add: tie_def downloaded_of_def)
  have p: "round1 (fl (fl (downloaded_of tie / 80) * 100)) = 287 / 10"
    unfolding d by (rule percent_23_80)
  have v: "video_id_of tie = lit ''abc''" by (simp add: video_id_of_def tie_def)
  have g: "d_speed tie = Absent" "d_eta tie = Null" by (simp_all add: tie_def)
  from hook_downloading_update [OF s t, of Map.empty] show ?thesis
    unfolding p v g by simp
qed

lemma hook_tiny:
  "progress_hook tiny Map.empty
   = (None, [lit ''abc'' \<mapsto> \<lparr> j_status = lit ''downloading'', j_percent = 1 / 10,
                               j_speed = Val 1000, j_eta = Val 2 \<rparr>])"
proof -
  have s: "d_status tiny = lit ''downloading''" by (simp add: tiny_def)
  have t: "total_of tiny = Some 2000" by (simp add: tiny_def total_of_def)
  have d: "downloaded_of tiny = 1" by (simp add: tiny_def downloaded_of_def)
  have p: "round1 (fl (fl (downloaded_of tiny / 2000) * 100)) = 1 / 10"
    unfolding d by (rule percent_1_2000)
  have v: "video_id_of tiny = lit ''abc''" by (simp add: video_id_of_def tiny_def)
  have g: "d_speed tiny = Val 1000" "d_eta tiny = Val 2" by (simp_all add: tiny_def)
  from hook_downloading_update [OF s t, of Map.empty] show ?thesis
    unfolding p v g by simp
qed

theorem progress_hook_downloading_witness:
  "d_status tie = lit ''downloading'' \<and> total_of tie = Some 80 \<and> downloaded_of tie = 23
   \<and> progress_hook tie Map.empty
       = (None, [lit ''abc'' \<mapsto> \<lparr> j_status = lit ''downloading'', j_percent = 287 / 10,
                                   j_speed = Val 0, j_eta = Null \<rparr>])
   \<and> \<bar>(287 / 10 :: rat) - 23 / 80 * 100\<bar> \<le> 1 / 20 + \<bar>23 / 80 * 100\<bar> / 2 ^ 51
   \<and> d_status tiny = lit ''downloading'' \<and> total_of tiny = Some 2000
   \<and> progress_hook tiny Map.empty
       = (None, [lit ''abc'' \<mapsto> \<lparr> j_status = lit ''downloading'', j_percent = 1 / 10,
                                   j_speed = Val 1000, j_eta = Val 2 \<rparr>])
   \<and> d_status zero_total = lit ''downloading'' \<and> total_of zero_total = Some 0
   \<and> progress_hook zero_total [lit ''abc'' \<mapsto> starting_job]
       = (None, [lit ''abc'' \<mapsto> starting_job])
   \<and> d_status unknown_total = lit ''downloading'' \<and> total_of unknown_total = None
   \<and> progress_hook unknown_total [lit ''abc'' \<mapsto> starting_job]
       = (Some TypeError, [lit ''abc'' \<mapsto> starting_job])"
proof -
  have s1: "d_status tie = lit ''downloading''" by (simp add: tie_def)
  have t1: "total_of tie = Some 80" by (simp add: tie_def total_of_def)
  have d1: "downloaded_of tie = 23" by (simp add: tie_def downloaded_of_def)
  have p1: "round1 (fl (fl (23 / 80) * 100)) = 287 / 10" by (rule percent_23_80)
  have s2: "d_status tiny = lit ''downloading''" by (simp add: tiny_def)
  have t2: "total_of tiny = Some 2000" by (simp add: tiny_def total_of_def)
  have s3: "d_status zero_total = lit ''downloading''" by (simp add: zero_total_def)
  have t3: "total_of zero_total = Some 0" by (simp add: zero_total_def total_of_def)
  have s4: "d_status unknown_total = lit ''downloading''" by (simp add: unknown_total_def)
  have t4: "total_of unknown_total = None" by (simp add: unknown_total_def total_of_def)
  have "\<bar>round1 (fl (fl (downloaded_of tie / 80) * 100)) - downloaded_of tie / 80 * 100\<bar>
      \<le> 1 / 20 + \<bar>downloaded_of tie / 80 * 100\<bar> / 2 ^ 51"
    using progress_hook_downloading [OF s1, of Map.empty] unfolding t1
    by (simp only: option.case zero_less_numeral if_True)
  then have c1: "\<bar>(287 / 10 :: rat) - 23 / 80 * 100\<bar> \<le> 1 / 20 + \<bar>23 / 80 * 100\<bar> / 2 ^ 51"
    unfolding d1 unfolding p1 .
  have h3: "progress_hook zero_total [lit ''abc'' \<mapsto> starting_job]
       = (None, [lit ''abc'' \<mapsto> starting_job])"
    using progress_hook_downloading [OF s3, of "[lit ''abc'' \<mapsto> starting_job]"] unfolding t3
    by (simp only: option.case less_irrefl if_False)
  have h4: "progress_hook unknown_total [lit ''abc'' \<mapsto> starting_job]
       = (Some TypeError, [lit ''abc'' \<mapsto> starting_job])"
    using progress_hook_downloading [OF s4, of "[lit ''abc'' \<mapsto> starting_job]"] unfolding t4
    by (simp only: option.case)
  from s1 t1 d1 hook_tie c1 s2 t2 hook_tiny s3 t3 h3 s4 t4 h4 show ?thesis by (intro conjI)
qed

section \<open>Reading the progress cache\<close>

lemma snd_progress_hook:
  "snd (progress_hook d st) = (case written d of None \<Rightarrow> st | Some j \<Rightarrow> st(video_id_of d \<mapsto> j))"
  by (simp add: progress_hook_def written_def split: option.splits)

lemma apply_op_other: "video_id \<noteq> target x \<Longrightarrow> apply_op x st video_id = st video_id"
  by (cases x) (simp_all add: create_def snd_progress_hook split: option.splits)

lemma run_other: "video_id \<notin> target ` set ops \<Longrightarrow> run ops st video_id = st video_id"
  by (induction ops arbitrary: st) (simp_all add: apply_op_other)

text \<open>
  C8, as amended. For an id that has no entry in the cache and that no later writer files
  a record under (no \<open>Create\<close> of that id, no progress or finished event carrying it),
  \<open>get_progress\<close> returns the default record, with status \<open>unknown\<close> and percent 0,
  whatever the other entries of the cache and whatever the sequence of writers. The
  lookup is a function of the cache and the id, so it returns without raising.
\<close>

theorem get_progress_unwritten:
  assumes "download_progress video_id = None" and "video_id \<notin> target ` set ops"
  shows "get_progress (run ops download_progress) video_id
         = \<lparr> j_status = lit ''unknown'', j_percent = 0, j_speed = Absent, j_eta = Absent \<rparr>"
proof -
  from run_other [OF assms(2), of download_progress] assms(1)
  have "run ops download_progress video_id = None" by simp
  then show ?thesis by (simp add: get_progress_def default_progress_def)
qed

theorem get_progress_unwritten_witness:
  "[lit ''old'' \<mapsto> finished_job] (lit ''xyz'') = None
   \<and> lit ''xyz'' \<notin> target ` set [Create (lit ''abc''), Hook tie, Hook anonymous]
   \<and> get_progress (run [Create (lit ''abc''), Hook tie, Hook anonymous]
        [lit ''old'' \<mapsto> finished_job]) (lit ''xyz'')
       = \<lparr> j_status = lit ''unknown'', j_percent = 0, j_speed = Absent, j_eta = Absent \<rparr>"
proof -
  have e: "[lit ''old'' \<mapsto> finished_job] (lit ''xyz'') = None" by (simp add: lit_def)
  have n: "lit ''xyz'' \<notin> target ` set [Create (lit ''abc''), Hook tie, Hook anonymous]"
    by (simp add: video_id_of_def tie_def anonymous_def lit_def)
  from get_progress_unwritten [of "[lit ''old'' \<mapsto> finished_job]" "lit ''xyz''"
      "[Create (lit ''abc''), Hook tie, Hook anonymous]", OF e n] e n
  show ?thesis by (intro conjI)
qed

text \<open>
  C8 as stated fails: an id that was never created can have an entry. A progress event
  files its record under the id the provider reports, whether or not \<open>Create\<close> ran for
  that id, and \<open>get_progress\<close> then returns that record instead of the default.
\<close>

theorem get_progress_without_create:
  "Create (lit ''abc'') \<notin> set [Hook tie]
   \<and> get_progress (run [Hook tie] Map.empty) (lit ''abc'')
       = \<lparr> j_status = lit ''downloading'', j_percent = 287 / 10, j_speed = Val 0, j_eta = Null \<rparr>
   \<and> get_progress (run [Hook tie] Map.empty) (lit ''abc'') \<noteq> default_progress"
proof -
  have r: "run [Hook tie] Map.empty
      = [lit ''abc'' \<mapsto> \<lparr> j_status = lit ''downloading'', j_percent = 287 / 10,
                           j_speed = Val 0, j_eta = Null \<rparr>]"
    by (simp add: hook_tie)
  have g: "get_progress (run [Hook tie] Map.empty) (lit ''abc'')
       = \<lparr> j_status = lit ''downloading'', j_percent = 287 / 10, j_speed = Val 0, j_eta = Null \<rparr>"
    unfolding r by (simp add: get_progress_def)
  have d: "\<lparr> j_status = lit ''downloading'', j_percent = 287 / 10, j_speed = Val 0, j_eta = Null \<rparr>
      \<noteq> default_progress"
    by (simp add: default_progress_def)
  have c: "Create (lit ''abc'') \<notin> set [Hook tie]" by simp
  from c g d show ?thesis by (simp only: simp_thms)
qed

section \<open>Events without a media id\<close>

lemma written_not_default: "written d = Some j \<Longrightarrow> j \<noteq> default_progress"
  by (auto simp: written_def downloading_job_def finished_job_def default_progress_def lit_def
      split: if_splits option.splits)

text \<open>
  C9. An event whose \<open>info_dict\<close> is missing or has no \<open>id\<close> is filed under the id
  \<open>unknown\<close>: whatever record the hook writes for it is stored under that literal key,
  reading the key \<open>unknown\<close> then returns that record, which differs from the default
  record, and a second event without id overwrites the same entry.
\<close>

theorem progress_hook_without_id:
  assumes "no_id d"
  shows "video_id_of d = lit ''unknown''
   \<and> (written d = Some j \<longrightarrow>
        progress_hook d st = (None, st(lit ''unknown'' \<mapsto> j))
        \<and> get_progress (snd (progress_hook d st)) (lit ''unknown'') = j
        \<and> j \<noteq> default_progress)
   \<and> (no_id d' \<longrightarrow> written d' = Some j' \<longrightarrow>
        get_progress (snd (progress_hook d' (snd (progress_hook d st)))) (lit ''unknown'') = j')"
proof -
  have u: "video_id_of e = lit ''unknown''" if "no_id e" for e
    using that by (simp add: no_id_def video_id_of_def split: option.splits)
  have w: "progress_hook e s = (None, s(lit ''unknown'' \<mapsto> k))"
    if "no_id e" "written e = Some k" for e s k
    using that u [OF that(1)]
    by (auto simp: progress_hook_def written_def split: if_splits option.splits)
  show ?thesis
    using u [OF assms] w [OF assms] w [of d'] written_not_default [of d j]
    by (simp add: get_progress_def)
qed

lemma written_anonymous:
  "written anonymous = Some \<lparr> j_status = lit ''downloading'', j_percent = 25,
                              j_speed = Null, j_eta = Null \<rparr>"
  by (simp add: written_def anonymous_def total_of_def downloading_job_def downloaded_of_def
      get_default_def percent_quarter)

theorem progress_hook_without_id_witness:
  "no_id anonymous \<and> no_id anonymous_finished
   \<and> get_progress (snd (progress_hook anonymous Map.empty)) (lit ''unknown'')
       = \<lparr> j_status = lit ''downloading'', j_percent = 25, j_speed = Null, j_eta = Null \<rparr>
   \<and> get_progress (snd (progress_hook anonymous_finished (snd (progress_hook anonymous Map.empty))))
        (lit ''unknown'') = finished_job"
proof -
  have a: "no_id anonymous" by (simp add: no_id_def anonymous_def)
  have b: "no_id anonymous_finished" by (simp add: no_id_def anonymous_finished_def)
  have f: "written anonymous_finished = Some finished_job"
    by (simp add: written_def anonymous_finished_def lit_def)
  from progress_hook_without_id [OF a, of _ Map.empty anonymous_finished finished_job]
    written_anonymous a b f
  show ?thesis by blast
qed

section \<open>Failures of download\_video\<close>

text \<open>
  C7. A \<open>DownloadError\<close> whose message contains \<open>Invalid argument\<close> or \<open>Errno 22\<close>
  is answered with status 400 and the invalid-file-name message; any other
  \<open>DownloadError\<close> with status 400 and \<open>Erro no download:\<close> followed by the message;
  an \<open>OSError\<close> with errno 22 with status 400 and the invalid-characters message; and
  when no entry of the directory contains the first 30 characters of the title, the answer
  is status 500 with the file-not-found message. Both invalid-name messages ask to try
  again.
\<close>

theorem download_failures:
  "(mentions_errno22 error_msg \<longrightarrow>
      handle_exception (DownloadError error_msg) = (400, JError invalid_filename_msg))
   \<and> (\<not> mentions_errno22 error_msg \<longrightarrow>
      handle_exception (DownloadError error_msg)
        = (400, JError (lit ''Erro no download: '' @ error_msg)))
   \<and> handle_exception (OSError (Some 22) msg) = (400, JError invalid_chars_msg)
   \<and> (find (\<lambda>f. contains (take 30 title) f) listing = None \<longrightarrow>
        finish_download download_dir path_exists video_id title (Inr listing)
          = (500, JError not_found_msg))
   \<and> contains (lit ''Tente novamente'') invalid_filename_msg
   \<and> contains (lit ''Tente novamente'') invalid_chars_msg"
proof -
  have "contains (lit ''Tente novamente'') invalid_filename_msg"
    by (simp add: invalid_filename_msg_def lit_def)
  moreover have "contains (lit ''Tente novamente'') invalid_chars_msg"
    by (simp add: invalid_chars_msg_def lit_def)
  ultimately show ?thesis
    by (simp add: finish_download_def locate_file_def find_downloaded_def)
qed

theorem download_failures_witness:
  "mentions_errno22 (lit ''ERROR: unable to open for writing: [Errno 22] Invalid argument'')
   \<and> handle_exception (DownloadError (lit ''ERROR: unable to open for writing: [Errno 22] Invalid argument''))
       = (400, JError invalid_filename_msg)
   \<and> \<not> mentions_errno22 (lit ''ERROR: Video unavailable'')
   \<and> handle_exception (DownloadError (lit ''ERROR: Video unavailable''))
       = (400, JError (lit ''Erro no download: ERROR: Video unavailable''))
   \<and> finish_download (lit ''/srv/downloads'') (\<lambda>p. True) (Some (lit ''abc'')) (lit ''My title'')
        (Inr [lit ''other_720p.mp4'']) = (500, JError not_found_msg)"
proof -
  have m1: "mentions_errno22 (lit ''ERROR: unable to open for writing: [Errno 22] Invalid argument'')"
    by (simp add: mentions_errno22_def lit_def)
  have m2: "\<not> mentions_errno22 (lit ''ERROR: Video unavailable'')"
    by (simp add: mentions_errno22_def lit_def)
  have f: "find (\<lambda>f. contains (take 30 (lit ''My title'')) f) [lit ''other_720p.mp4''] = None"
    by (simp add: lit_def)
  have a: "lit ''Erro no download: '' @ lit ''ERROR: Video unavailable''
      = lit ''Erro no download: ERROR: Video unavailable''"
    by (simp add: lit_def)
  from download_failures [of "lit ''ERROR: unable to open for writing: [Errno 22] Invalid argument''"]
    download_failures [of "lit ''ERROR: Video unavailable''" _ "lit ''My title''"
      "[lit ''other_720p.mp4'']" "lit ''/srv/downloads''" "\<lambda>p. True" "Some (lit ''abc'')"]
    m1 m2 f a
  show ?thesis by simp
qed

end
